theory Spec2Isabelle
  imports Complex_Main "HOL-Library.Word"
begin

unbundle bit_operations_syntax

chapter \<open>The voice layer of the robot project: model\<close>

text \<open>
  A shallow embedding of \<^verbatim>\<open>src/voice/vad.py\<close>, \<^verbatim>\<open>aec.py\<close>, \<^verbatim>\<open>tts.py\<close>, \<^verbatim>\<open>asr.py\<close> and
  \<^verbatim>\<open>dialog_manager.py\<close>. Python \<^verbatim>\<open>bytes\<close> are lists of 8-bit words, Python \<^verbatim>\<open>str\<close> are
  lists of code points, exceptions are values of \<open>py_error\<close> on the left of a sum.
  External libraries (webrtcvad, gzip, json, the websocket, the pipes) are parameters
  or scripted inputs of the functions that call them.
\<close>

type_synonym byte = "8 word"
type_synonym bytes = "byte list"
type_synonym str = "nat list"

datatype py_error =
    ValueError | ZeroDivisionError | RuntimeError | OSError | OverflowError | TypeError
  | AttributeError | TimeoutError | ConnectionClosed | OtherError

section \<open>vad.py: VADDetector\<close>

text \<open>
  The fields of \<^verbatim>\<open>VADDetector\<close> that the methods read. \<open>vad\<close> is
  \<^verbatim>\<open>self.vad.is_speech(buf, self.sample_rate)\<close> of webrtcvad: it returns a bool or raises.
\<close>

record VADDetector =
  vad :: "bytes \<Rightarrow> py_error + bool"
  sample_rate :: nat
  frame_duration_ms :: nat
  frame_size :: nat
  padding_duration_ms :: nat
  speech_start_frames :: nat
  speech_end_frames :: nat

definition VADDetector_init ::
  "(bytes \<Rightarrow> py_error + bool) \<Rightarrow> nat \<Rightarrow> py_error + VADDetector" where
  "VADDetector_init classifier rate =
     (if rate \<notin> set [8000, 16000, 32000, 48000] then Inl ValueError
      else Inr \<lparr> vad = classifier, sample_rate = rate, frame_duration_ms = 30,
                 frame_size = (rate * 30 div 1000) * 2,
                 padding_duration_ms = 300,
                 speech_start_frames = 10, speech_end_frames = 20 \<rparr>)"

text \<open>
  The first statement of \<^verbatim>\<open>is_speech\<close>: the local name \<^verbatim>\<open>audio_chunk\<close> is rebound to a
  padded or truncated copy; the caller's object is not touched (bytes are immutable).
\<close>

definition normalize_chunk :: "nat \<Rightarrow> bytes \<Rightarrow> bytes" where
  "normalize_chunk fsz audio_chunk =
     (if length audio_chunk \<noteq> fsz then
        (if length audio_chunk < fsz
         then audio_chunk @ replicate (fsz - length audio_chunk) 0
         else take fsz audio_chunk)
      else audio_chunk)"

text \<open>\<^verbatim>\<open>try: return self.vad.is_speech(...)  except: return False\<close>\<close>

definition is_speech :: "VADDetector \<Rightarrow> bytes \<Rightarrow> py_error + bool" where
  "is_speech self audio_chunk =
     (case vad self (normalize_chunk (frame_size self) audio_chunk) of
        Inl e \<Rightarrow> Inr False
      | Inr b \<Rightarrow> Inr b)"

text \<open>
  The local state of \<^verbatim>\<open>detect_speech_segments\<close>. \<open>ring_buffer\<close> is a
  \<^verbatim>\<open>collections.deque(maxlen=self.speech_end_frames)\<close>: appending to a full deque drops
  its oldest element.
\<close>

record detect_state =
  ring_buffer :: "(bytes \<times> bool) list"
  triggered :: bool
  voiced_frames :: "bytes list"
  speech_count :: nat
  silence_count :: nat

definition detect_init :: detect_state where
  "detect_init = \<lparr> ring_buffer = [], triggered = False, voiced_frames = [],
                    speech_count = 0, silence_count = 0 \<rparr>"

definition deque_append :: "nat \<Rightarrow> 'a list \<Rightarrow> 'a \<Rightarrow> 'a list" where
  "deque_append maxlen dq x = drop (Suc (length dq) - maxlen) (dq @ [x])"

text \<open>Python's \<^verbatim>\<open>xs[:-n]\<close>; for \<^verbatim>\<open>n = 0\<close> the slice is \<^verbatim>\<open>xs[:0]\<close>, the empty list.\<close>

definition slice_to_neg :: "nat \<Rightarrow> 'a list \<Rightarrow> 'a list" where
  "slice_to_neg n xs = (if n = 0 then [] else take (length xs - n) xs)"

datatype detect_step = Continue detect_state | Return "bytes option"

text \<open>The body of the inner \<^verbatim>\<open>for i in range(num_frames)\<close> loop, for one frame.\<close>

definition process_frame :: "VADDetector \<Rightarrow> detect_state \<Rightarrow> bytes \<Rightarrow> py_error + detect_step" where
  "process_frame self st frame =
     (if length frame < frame_size self then Inr (Continue st)
      else case is_speech self frame of
        Inl e \<Rightarrow> Inl e
      | Inr sp \<Rightarrow>
          if \<not> triggered st then
            (let rb = deque_append (speech_end_frames self) (ring_buffer st) (frame, sp);
                 sc = (if sp then speech_count st + 1 else 0);
                 sil = (if sp then 0 else silence_count st + 1)
             in if sc \<ge> speech_start_frames self then
                  Inr (Continue \<lparr> ring_buffer = [], triggered = True,
                                   voiced_frames = voiced_frames st @ map fst rb,
                                   speech_count = 0, silence_count = 0 \<rparr>)
                else
                  Inr (Continue \<lparr> ring_buffer = rb, triggered = False,
                                   voiced_frames = voiced_frames st,
                                   speech_count = sc, silence_count = sil \<rparr>))
          else
            (let vf = voiced_frames st @ [frame];
                 rb = deque_append (speech_end_frames self) (ring_buffer st) (frame, sp);
                 sil = (if \<not> sp then silence_count st + 1 else 0);
                 sc = (if \<not> sp then 0 else speech_count st + 1)
             in if sil \<ge> speech_end_frames self then
                  (let voiced_audio = concat (slice_to_neg (speech_end_frames self) vf)
                   in Inr (Return (if voiced_audio \<noteq> [] then Some voiced_audio else None)))
                else
                  Inr (Continue \<lparr> ring_buffer = rb, triggered = True, voiced_frames = vf,
                                   speech_count = sc, silence_count = sil \<rparr>)))"

fun run_frames :: "VADDetector \<Rightarrow> detect_state \<Rightarrow> bytes list \<Rightarrow> py_error + detect_step" where
  "run_frames self st [] = Inr (Continue st)"
| "run_frames self st (frame # frames) =
     (case process_frame self st frame of
        Inl e \<Rightarrow> Inl e
      | Inr (Return r) \<Rightarrow> Inr (Return r)
      | Inr (Continue st') \<Rightarrow> run_frames self st' frames)"

text \<open>
  \<^verbatim>\<open>num_frames = len(audio_chunk) // self.frame_size\<close> and the slices
  \<^verbatim>\<open>audio_chunk[i * frame_size:(i + 1) * frame_size]\<close>.
\<close>

definition split_frames :: "nat \<Rightarrow> bytes \<Rightarrow> bytes list" where
  "split_frames fsz audio_chunk =
     map (\<lambda>i. take fsz (drop (i * fsz) audio_chunk)) [0..<length audio_chunk div fsz]"

text \<open>
  The outer loop over the chunks of the stream, and the code after it, reached when the
  stream is exhausted. \<^verbatim>\<open>//\<close> raises on a zero frame size.
\<close>

fun run_chunks :: "VADDetector \<Rightarrow> detect_state \<Rightarrow> bytes list \<Rightarrow> py_error + bytes option" where
  "run_chunks self st [] =
     Inr (if triggered st \<and> voiced_frames st \<noteq> [] then Some (concat (voiced_frames st)) else None)"
| "run_chunks self st (audio_chunk # rest) =
     (if frame_size self = 0 then Inl ZeroDivisionError
      else case run_frames self st (split_frames (frame_size self) audio_chunk) of
        Inl e \<Rightarrow> Inl e
      | Inr (Return r) \<Rightarrow> Inr r
      | Inr (Continue st') \<Rightarrow> run_chunks self st' rest)"

definition detect_speech_segments :: "VADDetector \<Rightarrow> bytes list \<Rightarrow> py_error + bytes option" where
  "detect_speech_segments self audio_stream = run_chunks self detect_init audio_stream"


subsection \<open>Notions used in the proofs about the detector\<close>

text \<open>The value \<^verbatim>\<open>is_speech\<close> returns, as a plain boolean.\<close>

definition speech :: "VADDetector \<Rightarrow> bytes \<Rightarrow> bool" where
  "speech self f =
     (case vad self (normalize_chunk (frame_size self) f) of Inl e \<Rightarrow> False | Inr b \<Rightarrow> b)"

text \<open>
  The loop invariant of \<^verbatim>\<open>detect_speech_segments\<close>; \<open>rfs\<close> are the frames processed so
  far, most recent first.
\<close>

definition detect_inv :: "VADDetector \<Rightarrow> bytes list \<Rightarrow> detect_state \<Rightarrow> bool" where
  "detect_inv self rfs st \<longleftrightarrow>
     length (ring_buffer st) \<le> speech_end_frames self \<and>
     (\<exists>n. rev (voiced_frames st) = take n rfs) \<and>
     (if triggered st
      then silence_count st \<le> length (voiced_frames st) \<and>
           (\<forall>x\<in>set (take (silence_count st) rfs). \<not> speech self x)
      else voiced_frames st = [] \<and> speech_count st \<le> length rfs \<and>
           rev (map fst (ring_buffer st)) = take (speech_end_frames self) rfs \<and>
           (\<forall>x\<in>set (take (speech_count st) rfs). speech self x))"

subsection \<open>A detector and frames to run the model on\<close>

text \<open>
  A classifier that answers True on any buffer with a non-zero byte, the detector
  \<^verbatim>\<open>VADDetector(sample_rate=16000)\<close> built on it, one loud and one silent 30 ms frame.
\<close>

definition energy_vad :: "bytes \<Rightarrow> py_error + bool" where
  "energy_vad buf = Inr (buf \<noteq> replicate (length buf) 0)"

definition demo_vad :: VADDetector where
  "demo_vad = \<lparr> vad = energy_vad, sample_rate = 16000, frame_duration_ms = 30,
                 frame_size = 960, padding_duration_ms = 300,
                 speech_start_frames = 10, speech_end_frames = 20 \<rparr>"

definition speech_frame :: bytes where "speech_frame = replicate 960 1"

definition silence_frame :: bytes where "silence_frame = replicate 960 0"

section \<open>dialog\_manager.py: waiting for the start of speech\<close>

text \<open>
  The fields of \<^verbatim>\<open>VoiceDialogManager\<close> the modelled methods read or write.
  \<open>wait_after_speak\<close> is in seconds; \<open>has_audio_stream\<close> is the truth value of
  \<^verbatim>\<open>self.audio_stream\<close>; \<open>aec_enabled\<close> is \<^verbatim>\<open>self._aec_enabled\<close>.
\<close>

record DialogManager =
  running :: bool
  is_speaking :: bool
  wait_after_speak :: real
  aec_enabled :: bool
  has_audio_stream :: bool
  current_speaker_name :: "str option"
  awaiting_name :: bool
  exit_keywords :: "str list"

text \<open>\<^verbatim>\<open>[chunk[i:i + frame_size] for i in range(0, len(chunk), frame_size)]\<close>\<close>

definition chunk_slices :: "nat \<Rightarrow> bytes \<Rightarrow> bytes list" where
  "chunk_slices fsz chunk =
     map (\<lambda>k. take fsz (drop (k * fsz) chunk)) [0..<(length chunk + fsz - 1) div fsz]"

text \<open>
  The voting loops of \<^verbatim>\<open>read_and_check\<close> and \<^verbatim>\<open>_barge_in_check\<close>: a slice shorter than
  the frame size is skipped; the pair is (speech votes, total votes).
\<close>

fun vote_frames :: "VADDetector \<Rightarrow> bytes list \<Rightarrow> nat \<times> nat \<Rightarrow> py_error + nat \<times> nat" where
  "vote_frames v [] acc = Inr acc"
| "vote_frames v (f # fs) (speech_votes, total_votes) =
     (if length f < frame_size v then vote_frames v fs (speech_votes, total_votes)
      else case is_speech v f of
        Inl e \<Rightarrow> Inl e
      | Inr b \<Rightarrow>
          vote_frames v fs (if b then speech_votes + 1 else speech_votes, total_votes + 1))"

text \<open>
  \<^verbatim>\<open>read_and_check\<close>, given what \<^verbatim>\<open>self.audio_stream.read()\<close> did. Any exception gives
  \<^verbatim>\<open>(None, False)\<close>. The quotient is Python's true division, taken here over the reals.
\<close>

definition read_and_check :: "VADDetector \<Rightarrow> py_error + bytes \<Rightarrow> bytes option \<times> bool" where
  "read_and_check v r =
     (case r of
        Inl e \<Rightarrow> (None, False)
      | Inr chunk \<Rightarrow>
          if frame_size v = 0 then
            (case is_speech v chunk of Inl e \<Rightarrow> (None, False) | Inr b \<Rightarrow> (Some chunk, b))
          else
            (case vote_frames v (chunk_slices (frame_size v) chunk) (0, 0) of
               Inl e \<Rightarrow> (None, False)
             | Inr (speech_votes, total_votes) \<Rightarrow>
                 (Some chunk, total_votes > 0 \<and> real speech_votes / real total_votes \<ge> 0.5)))"

definition pre_buffer_max :: nat where
  "pre_buffer_max = 15"

definition speech_threshold :: nat where
  "speech_threshold = 3"

text \<open>
  The loop of \<^verbatim>\<open>_wait_for_speech_start\<close> over the scripted results of the reads. \<open>None\<close>
  means that the script ended while the loop was still waiting.
\<close>

fun wait_loop ::
  "DialogManager \<Rightarrow> VADDetector \<Rightarrow> (py_error + bytes) list \<Rightarrow> bytes list \<Rightarrow> nat \<Rightarrow>
   (bool \<times> bytes list) option" where
  "wait_loop dm v [] pre_buffer consecutive_speech =
     (if running dm \<and> \<not> is_speaking dm then None else Some (False, []))"
| "wait_loop dm v (r # rs) pre_buffer consecutive_speech =
     (if running dm \<and> \<not> is_speaking dm then
        (case read_and_check v r of
           (chunk, sp) \<Rightarrow>
             (let pb = (case chunk of
                          None \<Rightarrow> pre_buffer
                        | Some c \<Rightarrow>
                            if c \<noteq> [] then
                              (let pb1 = pre_buffer @ [c]
                               in if length pb1 > pre_buffer_max then tl pb1 else pb1)
                            else pre_buffer)
              in if sp then
                   (if consecutive_speech + 1 \<ge> speech_threshold then Some (True, pb)
                    else wait_loop dm v rs pb (consecutive_speech + 1))
                 else wait_loop dm v rs pb 0))
      else Some (False, []))"

definition wait_for_speech_start ::
  "DialogManager \<Rightarrow> VADDetector \<Rightarrow> (py_error + bytes) list \<Rightarrow> (bool \<times> bytes list) option" where
  "wait_for_speech_start dm v reads = wait_loop dm v reads [] 0"

text \<open>
  The start of \<^verbatim>\<open>_realtime_recognize\<close>: the pre-buffer is copied to the audio buffer and to
  the recognizer's queue; the pair is (audio buffer, queue).
\<close>

definition preload_pre_buffer :: "bytes list \<Rightarrow> bytes list \<times> bytes list" where
  "preload_pre_buffer pre_buffer = (if pre_buffer \<noteq> [] then (pre_buffer, pre_buffer) else ([], []))"


subsection \<open>A dialog manager to run the model on\<close>

text \<open>
  The state after \<^verbatim>\<open>__init__\<close> and \<^verbatim>\<open>start_stream\<close>, with the echo canceller on or off.
  The exit keywords are the code points of the four literals of \<^verbatim>\<open>self.exit_keywords\<close>.
\<close>

definition exit_keywords_init :: "str list" where
  "exit_keywords_init =
     [[0x9000, 0x51FA], [0x518D, 0x89C1], [0x62DC, 0x62DC], [0x7ED3, 0x675F]]"

definition demo_dm :: "bool \<Rightarrow> DialogManager" where
  "demo_dm aec = \<lparr> running = True, is_speaking = False, wait_after_speak = 0,
                    aec_enabled = aec, has_audio_stream = True,
                    current_speaker_name = None, awaiting_name = False,
                    exit_keywords = exit_keywords_init \<rparr>"

section \<open>aec.py: EcEchoCanceller.read\_capture\<close>

text \<open>
  The fields of \<^verbatim>\<open>EcEchoCanceller\<close> that \<^verbatim>\<open>read_capture\<close> reads: \<^verbatim>\<open>self.config.enabled\<close>
  and the descriptor of the capture pipe, \<open>None\<close> before \<^verbatim>\<open>start\<close>.
\<close>

record EcEchoCanceller =
  enabled :: bool
  capture_fd :: "nat option"

text \<open>
  What one call \<^verbatim>\<open>os.read(fd, n)\<close> on the non-blocking pipe does: the pipe holds some
  bytes, of which the call returns at most \<open>n\<close> (none at end of file), or the call raises
  \<^verbatim>\<open>OSError\<close> with \<^verbatim>\<open>EAGAIN\<close>/\<^verbatim>\<open>EWOULDBLOCK\<close> or with another error number.
\<close>

datatype read_outcome = Available bytes | EAGAIN | EOther

definition os_read :: "read_outcome \<Rightarrow> int \<Rightarrow> py_error + bytes" where
  "os_read outcome n =
     (case outcome of
        Available avail \<Rightarrow> Inr (take (nat n) avail)
      | EAGAIN \<Rightarrow> Inl OSError
      | EOther \<Rightarrow> Inl OSError)"

text \<open>
  One evaluation of the loop condition with \<^verbatim>\<open>total < min_bytes\<close>: either the clock test
  \<^verbatim>\<open>(time.time() - t0) < timeout_s\<close> fails, or it holds and the body performs one read.
\<close>

datatype capture_event = TimedOut | Read read_outcome

text \<open>
  The \<^verbatim>\<open>while\<close> loop of \<^verbatim>\<open>read_capture\<close> over the scripted events. The result is the
  value returned or the exception raised, with the events not consumed; \<open>None\<close> means
  that the script ended while the loop was still running.
\<close>

fun capture_loop ::
  "int \<Rightarrow> capture_event list \<Rightarrow> bytes list \<Rightarrow> int \<Rightarrow>
   ((py_error + bytes) \<times> capture_event list) option" where
  "capture_loop min_bytes [] chunks total_read =
     (if total_read < min_bytes then None else Some (Inr (concat chunks), []))"
| "capture_loop min_bytes (ev # evs) chunks total_read =
     (if total_read < min_bytes then
        (case ev of
           TimedOut \<Rightarrow> Some (Inr (concat chunks), evs)
         | Read outcome \<Rightarrow>
             (case os_read outcome (min_bytes - total_read) of
                Inr data \<Rightarrow>
                  if data = [] then capture_loop min_bytes evs chunks total_read
                  else capture_loop min_bytes evs (chunks @ [data]) (total_read + int (length data))
              | Inl e \<Rightarrow>
                  if outcome = EAGAIN then capture_loop min_bytes evs chunks total_read
                  else Some (Inl e, evs)))
      else Some (Inr (concat chunks), ev # evs))"

definition read_capture ::
  "EcEchoCanceller \<Rightarrow> int \<Rightarrow> capture_event list \<Rightarrow>
   ((py_error + bytes) \<times> capture_event list) option" where
  "read_capture self min_bytes evs =
     (if \<not> enabled self then Some (Inr [], evs)
      else if capture_fd self = None then Some (Inl RuntimeError, evs)
      else capture_loop min_bytes evs [] 0)"

section \<open>tts.py: the receive loop of VolcengineTTS.synthesize\_stream\<close>

text \<open>\<^verbatim>\<open>int.from_bytes(bs, 'big')\<close> and the slice \<^verbatim>\<open>xs[i:j]\<close> for \<^verbatim>\<open>0 <= i <= j\<close>.\<close>

definition from_bytes_big :: "bytes \<Rightarrow> nat" where
  "from_bytes_big bs = foldl (\<lambda>acc b. acc * 256 + unat b) 0 bs"

definition py_slice :: "'a list \<Rightarrow> nat \<Rightarrow> nat \<Rightarrow> 'a list" where
  "py_slice xs i j = take (j - i) (drop i xs)"

text \<open>The fields of a server frame, as the loop reads them.\<close>

definition msg_type_of :: "bytes \<Rightarrow> byte" where
  "msg_type_of response = drop_bit 4 (response ! 1) AND 0x0F"

definition msg_flags_of :: "bytes \<Rightarrow> byte" where
  "msg_flags_of response = (response ! 1) AND 0x0F"

definition event_of :: "bytes \<Rightarrow> nat" where
  "event_of response = from_bytes_big (py_slice response 4 8)"

definition session_id_len_of :: "bytes \<Rightarrow> nat" where
  "session_id_len_of response = from_bytes_big (py_slice response 8 12)"

definition payload_of :: "bytes \<Rightarrow> bytes" where
  "payload_of response =
     (let offset = 12 + session_id_len_of response;
          payload_size = from_bytes_big (py_slice response offset (offset + 4))
      in py_slice response (offset + 4) (offset + 4 + payload_size))"

definition MSG_AUDIO_RESPONSE :: byte where "MSG_AUDIO_RESPONSE = 0xB"

definition MSG_ERROR_RESPONSE :: byte where "MSG_ERROR_RESPONSE = 0xF"

text \<open>
  What the body of the \<^verbatim>\<open>while True\<close> loop does with one received frame: it goes on to
  the next receive without a chunk, yields a chunk and goes on, or breaks out.
\<close>

datatype tts_step = Skip | Yield bytes | Break

text \<open>
  \<open>loads\<close> stands for \<^verbatim>\<open>json.loads(json_data.decode('utf-8'))\<close>, \<open>None\<close> when it raises.
  In the JSON branch every exception is caught and the loop goes on; the branch for event
  350 only prints.
\<close>

definition handle_response :: "(bytes \<Rightarrow> 'j option) \<Rightarrow> bytes \<Rightarrow> tts_step" where
  "handle_response loads response =
     (if length response < 4 then Skip
      else if msg_type_of response = MSG_AUDIO_RESPONSE then
        (if length response < 8 + 4 then Skip
         else if length response < 12 + session_id_len_of response + 4 then Skip
         else (let audio_data = payload_of response
               in if audio_data \<noteq> [] then Yield audio_data else Skip))
      else if msg_type_of response = MSG_ERROR_RESPONSE then Break
      else if msg_type_of response = 0x9 then
        (let event = event_of response
         in if length response < 8 + 4 then Skip
            else if length response < 12 + session_id_len_of response + 4 then Skip
            else (case loads (payload_of response) of
                    None \<Rightarrow> Skip
                  | Some resp_json \<Rightarrow>
                      if event = 350 then Skip
                      else if event = 152 then Break
                      else Skip))
      else Skip)"

text \<open>
  What \<^verbatim>\<open>await asyncio.wait_for(ws.recv(), timeout=30)\<close> gives: a frame, a timeout, a
  closed connection or another exception.
\<close>

datatype recv_event = Frame bytes | RecvTimeout | RecvClosed | RecvError

text \<open>
  The loop over the scripted receives: the chunks yielded, in order, and the events left
  unread when the loop has ended (\<open>None\<close> while it is still receiving at the end of the
  script).
\<close>

fun receive_loop ::
  "(bytes \<Rightarrow> 'j option) \<Rightarrow> recv_event list \<Rightarrow> bytes list \<times> recv_event list option" where
  "receive_loop loads [] = ([], None)"
| "receive_loop loads (ev # evs) =
     (case ev of
        Frame response \<Rightarrow>
          (case handle_response loads response of
             Skip \<Rightarrow> receive_loop loads evs
           | Yield audio_data \<Rightarrow>
               (audio_data # fst (receive_loop loads evs), snd (receive_loop loads evs))
           | Break \<Rightarrow> ([], Some evs))
      | RecvTimeout \<Rightarrow> ([], Some evs)
      | RecvClosed \<Rightarrow> ([], Some evs)
      | RecvError \<Rightarrow> ([], Some evs))"

subsection \<open>Frames to run the loop on\<close>

text \<open>
  \<^verbatim>\<open>json.loads(json_data.decode('utf-8'))\<close> on the payloads used below: \<^verbatim>\<open>{}\<close> parses, to
  the empty dictionary, written \<open>()\<close>; the empty payload and the payload \<^verbatim>\<open>ok\<close> raise. On
  other payloads \<open>loads_sample\<close> is not the library function.
\<close>

definition loads_sample :: "bytes \<Rightarrow> unit option" where
  "loads_sample json_data = (if json_data = [0x7B, 0x7D] then Some () else None)"

text \<open>
  Frames of message type \<^verbatim>\<open>0x9\<close> with event 152 (SessionFinished) and an empty session
  id: one with the payload \<^verbatim>\<open>{}\<close>, one with the payload \<^verbatim>\<open>ok\<close>, one with an empty payload,
  and one cut after ten bytes. A frame of type \<^verbatim>\<open>0x9\<close> with event 351 (the end of a
  sentence) and the payload \<^verbatim>\<open>{}\<close>. An audio frame with the flags \<^verbatim>\<open>0x3\<close> that carries
  two bytes.
\<close>

definition finished_frame :: bytes where
  "finished_frame = [0x11, 0x94, 0x10, 0x00, 0, 0, 0, 152, 0, 0, 0, 0, 0, 0, 0, 2, 0x7B, 0x7D]"

definition finished_frame_unparsed :: bytes where
  "finished_frame_unparsed =
     [0x11, 0x94, 0x10, 0x00, 0, 0, 0, 152, 0, 0, 0, 0, 0, 0, 0, 2, 0x6F, 0x6B]"

definition finished_frame_empty :: bytes where
  "finished_frame_empty = [0x11, 0x94, 0x10, 0x00, 0, 0, 0, 152, 0, 0, 0, 0, 0, 0, 0, 0]"

definition finished_frame_cut :: bytes where
  "finished_frame_cut = [0x11, 0x94, 0x10, 0x00, 0, 0, 0, 152, 0, 0]"

definition sentence_end_frame :: bytes where
  "sentence_end_frame =
     [0x11, 0x94, 0x10, 0x00, 0, 0, 1, 95, 0, 0, 0, 0, 0, 0, 0, 2, 0x7B, 0x7D]"

definition audio_frame :: bytes where
  "audio_frame = [0x11, 0xB3, 0x10, 0x00, 0, 0, 1, 96, 0, 0, 0, 0, 0, 0, 0, 2, 0xAA, 0xBB]"

section \<open>dialog\_manager.py: playback and the barge-in check\<close>

text \<open>
  One round of the loop \<^verbatim>\<open>for _ in range(2)\<close> of \<^verbatim>\<open>_barge_in_check\<close>, given what the read
  of the capture stream did: \<^verbatim>\<open>read_chunk\<close> turns an exception into the empty chunk, an
  empty chunk is skipped, and the frames of the chunk vote.
\<close>

definition vote_chunk ::
  "VADDetector \<Rightarrow> py_error + bytes \<Rightarrow> nat \<times> nat \<Rightarrow> py_error + nat \<times> nat" where
  "vote_chunk v r acc =
     (let chunk = (case r of Inl e \<Rightarrow> [] | Inr c \<Rightarrow> c)
      in if chunk = [] then Inr acc
         else if frame_size v = 0 then
           (case is_speech v chunk of
              Inl e \<Rightarrow> Inl e
            | Inr b \<Rightarrow> Inr (if b then fst acc + 1 else fst acc, snd acc + 1))
         else vote_frames v (chunk_slices (frame_size v) chunk) acc)"

text \<open>
  \<^verbatim>\<open>_barge_in_check\<close>. \<open>reads\<close> is what the successive reads of the capture stream do
  during this playback and \<open>k\<close> the number of reads made so far; the result comes with the
  new number of reads. The quotient is Python's true division, taken over the reals.
\<close>

definition barge_in_check ::
  "DialogManager \<Rightarrow> VADDetector \<Rightarrow> (nat \<Rightarrow> py_error + bytes) \<Rightarrow> nat \<Rightarrow> (py_error + bool) \<times> nat" where
  "barge_in_check dm v reads k =
     (if \<not> has_audio_stream dm then (Inr False, k)
      else case vote_chunk v (reads k) (0, 0) of
        Inl e \<Rightarrow> (Inl e, k + 1)
      | Inr acc \<Rightarrow>
          (case vote_chunk v (reads (k + 1)) acc of
             Inl e \<Rightarrow> (Inl e, k + 2)
           | Inr (votes, total_votes) \<Rightarrow>
               (Inr (if total_votes = 0 then False
                     else real votes / real total_votes \<ge> 0.6), k + 2)))"

text \<open>
  The outcome of the \<^verbatim>\<open>async for\<close> loop of \<^verbatim>\<open>_speak\<close> and the flush after it: the buffers
  handed to \<^verbatim>\<open>play_audio\<close>, the chunks of the synthesis stream that were not consumed,
  the number of capture reads made, and whether the loop was left at a barge-in.
\<close>

record speak_result =
  played :: "bytes list"
  unconsumed :: "bytes list"
  reads_used :: nat
  interrupted :: bool

definition buffer_threshold :: nat where
  "buffer_threshold = 3200"

text \<open>
  The loop over the chunks that \<^verbatim>\<open>self.tts.synthesize_stream(text)\<close> yields;
  \<^verbatim>\<open>play_audio\<close> is taken to succeed. An exception of the check would end the playback
  in the \<^verbatim>\<open>except\<close> branch, without the final flush.
\<close>

fun speak_loop ::
  "DialogManager \<Rightarrow> VADDetector \<Rightarrow> (nat \<Rightarrow> py_error + bytes) \<Rightarrow> bool \<Rightarrow>
   bytes list \<Rightarrow> bytes \<Rightarrow> nat \<Rightarrow> bytes list \<Rightarrow> speak_result" where
  "speak_loop dm v reads interruptible [] buffer k played_so_far =
     \<lparr> played = played_so_far @ (if buffer \<noteq> [] then [buffer] else []),
       unconsumed = [], reads_used = k, interrupted = False \<rparr>"
| "speak_loop dm v reads interruptible (chunk # rest) buffer k played_so_far =
     (if length (buffer @ chunk) \<ge> buffer_threshold then
        (if interruptible \<and> aec_enabled dm \<and> has_audio_stream dm then
           (case barge_in_check dm v reads k of
              (Inl e, k') \<Rightarrow>
                \<lparr> played = played_so_far @ [buffer @ chunk], unconsumed = rest,
                  reads_used = k', interrupted = False \<rparr>
            | (Inr barge_in, k') \<Rightarrow>
                if barge_in then
                  \<lparr> played = played_so_far @ [buffer @ chunk], unconsumed = rest,
                    reads_used = k', interrupted = True \<rparr>
                else speak_loop dm v reads interruptible rest [] k'
                       (played_so_far @ [buffer @ chunk]))
         else speak_loop dm v reads interruptible rest [] k (played_so_far @ [buffer @ chunk]))
      else speak_loop dm v reads interruptible rest (buffer @ chunk) k played_so_far)"

text \<open>\<^verbatim>\<open>_speak\<close>: the flags around the loop, set in the \<^verbatim>\<open>finally\<close> branch.\<close>

definition speak ::
  "DialogManager \<Rightarrow> VADDetector \<Rightarrow> (nat \<Rightarrow> py_error + bytes) \<Rightarrow> bool \<Rightarrow> bytes list \<Rightarrow>
   DialogManager \<times> speak_result" where
  "speak dm v reads interruptible chunks =
     (dm \<lparr> is_speaking := False, wait_after_speak := (if aec_enabled dm then 0 else 0.5) \<rparr>,
      speak_loop (dm \<lparr> is_speaking := True \<rparr>) v reads interruptible chunks [] 0 [])"

subsection \<open>The frames that a barge-in check samples\<close>

text \<open>
  The frames of one capture read that vote: the slices of the chunk that have the full
  frame size, or the whole chunk, if it is not empty, when the detector has no frame
  size; none when the read failed. The sample of a check made after \<open>k\<close> reads is the
  frames of the next two reads.
\<close>

definition capture_frames :: "VADDetector \<Rightarrow> py_error + bytes \<Rightarrow> bytes list" where
  "capture_frames v r =
     (case r of
        Inl e \<Rightarrow> []
      | Inr chunk \<Rightarrow>
          if frame_size v = 0 then (if chunk = [] then [] else [chunk])
          else filter (\<lambda>f. frame_size v \<le> length f) (chunk_slices (frame_size v) chunk))"

definition sampled_frames :: "VADDetector \<Rightarrow> (nat \<Rightarrow> py_error + bytes) \<Rightarrow> nat \<Rightarrow> bytes list" where
  "sampled_frames v reads k = capture_frames v (reads k) @ capture_frames v (reads (k + 1))"

text \<open>
  The answer of a barge-in check on the frames it sampled: there is a sampled frame, and
  at least 60 percent of the sampled frames are classified as speech
  (\<^verbatim>\<open>votes / total >= 0.6\<close>, which is \<open>6 * total \<le> 10 * votes\<close>).
\<close>

definition barge_in_vote :: "VADDetector \<Rightarrow> bytes list \<Rightarrow> bool" where
  "barge_in_vote v frames =
     (frames \<noteq> [] \<and> 6 * length frames \<le> 10 * length (filter (speech v) frames))"

subsection \<open>The buffered writes of a playback\<close>

text \<open>
  The writes that the buffering of \<^verbatim>\<open>_speak\<close> makes of a synthesis stream when nothing
  stops it: chunks are gathered in the buffer until it holds \<open>buffer_threshold\<close> bytes or
  more, the buffer is then written out and emptied. Each write is paired with the chunks
  of the stream that come after it. \<open>leftover\<close> is what the buffer holds when the stream
  has ended.
\<close>

fun buffered_writes :: "bytes list \<Rightarrow> bytes \<Rightarrow> (bytes \<times> bytes list) list" where
  "buffered_writes [] buffer = []"
| "buffered_writes (chunk # rest) buffer =
     (if buffer_threshold \<le> length (buffer @ chunk)
      then (buffer @ chunk, rest) # buffered_writes rest []
      else buffered_writes rest (buffer @ chunk))"

fun leftover :: "bytes list \<Rightarrow> bytes \<Rightarrow> bytes" where
  "leftover [] buffer = buffer"
| "leftover (chunk # rest) buffer =
     (if buffer_threshold \<le> length (buffer @ chunk)
      then leftover rest []
      else leftover rest (buffer @ chunk))"

subsection \<open>Capture streams to run the playback on\<close>

text \<open>
  \<open>demo_capture\<close>: three loud frames in the first read, two silent ones in the second,
  one silent frame in every later read. \<open>quiet_then_loud\<close>: two reads of one silent frame,
  then the reads of \<open>demo_capture\<close>. \<open>quiet_capture\<close>: one silent frame in every read.
\<close>

definition demo_capture :: "nat \<Rightarrow> py_error + bytes" where
  "demo_capture k =
     (if k = 0 then Inr (speech_frame @ speech_frame @ speech_frame)
      else if k = 1 then Inr (silence_frame @ silence_frame)
      else Inr silence_frame)"

definition quiet_then_loud :: "nat \<Rightarrow> py_error + bytes" where
  "quiet_then_loud k = (if k < 2 then Inr silence_frame else demo_capture (k - 2))"

definition quiet_capture :: "nat \<Rightarrow> py_error + bytes" where
  "quiet_capture k = Inr silence_frame"

text \<open>
  A synthesis stream of five chunks, of 1600, 1600, 3200, 10 and 5 bytes: the first two
  make the first buffered write, the third makes the second, and the last two stay in the
  buffer until the stream ends.
\<close>

definition demo_stream :: "bytes list" where
  "demo_stream =
     [replicate 1600 0, replicate 1600 1, replicate 3200 2, replicate 10 3, replicate 5 4]"

section \<open>asr.py: the frames of the recognizer\<close>

text \<open>
  The Python values that travel through the recognizer: what \<^verbatim>\<open>json.loads\<close> can return,
  and byte strings. A dictionary is the list of its items, looked up with \<open>map_of\<close>.
\<close>

datatype pyval =
    PNone | PBool bool | PInt int | PFloat real | PStr str | PBytes bytes
  | PList "pyval list" | PDict "(str \<times> pyval) list"

text \<open>A literal of the source, as a Python string (the literals used are ASCII).\<close>

definition ascii :: "string \<Rightarrow> str" where
  "ascii cs = map of_char cs"

text \<open>
  The library functions the recognizer calls, as parameters: \<^verbatim>\<open>gzip.compress\<close>,
  \<^verbatim>\<open>gzip.decompress\<close>, \<^verbatim>\<open>str.encode('utf-8')\<close>, \<^verbatim>\<open>bytes.decode('utf-8')\<close>,
  \<^verbatim>\<open>bytes.decode('utf-8', errors='ignore')\<close>, \<^verbatim>\<open>json.dumps\<close> and \<^verbatim>\<open>json.loads\<close>. \<open>None\<close>
  stands for an exception. The gzip header holds the time of the call, so
  \<open>gzip_compress\<close> is the function of one moment.
\<close>

record py_lib =
  gzip_compress :: "bytes \<Rightarrow> bytes"
  gzip_decompress :: "bytes \<Rightarrow> bytes option"
  utf8_encode :: "str \<Rightarrow> bytes"
  utf8_decode :: "bytes \<Rightarrow> str option"
  utf8_decode_ignore :: "bytes \<Rightarrow> str"
  json_dumps :: "pyval \<Rightarrow> str"
  json_loads :: "str \<Rightarrow> pyval option"

text \<open>
  The fields of \<^verbatim>\<open>VolcengineASR\<close> that the modelled methods read; the corrections are the
  items of the dictionary \<^verbatim>\<open>self.corrections\<close>, in order.
\<close>

record VolcengineASR =
  asr_format :: pyval
  asr_sample_rate :: pyval
  asr_bits :: pyval
  asr_channels :: pyval
  asr_hotwords :: "pyval list"
  asr_corrections :: "(str \<times> str) list"

definition FULL_CLIENT_REQUEST :: byte where "FULL_CLIENT_REQUEST = 0b0001"
definition AUDIO_ONLY_REQUEST :: byte where "AUDIO_ONLY_REQUEST = 0b0010"
definition NO_SERIALIZATION :: byte where "NO_SERIALIZATION = 0b0000"
definition JSON_SERIALIZATION :: byte where "JSON_SERIALIZATION = 0b0001"
definition GZIP_COMPRESSION :: byte where "GZIP_COMPRESSION = 0b0001"

definition build_header :: "byte \<Rightarrow> byte \<Rightarrow> byte \<Rightarrow> byte \<Rightarrow> bytes" where
  "build_header msg_type msg_flags serialization compression =
     [0x11, push_bit 4 msg_type OR msg_flags, push_bit 4 serialization OR compression, 0x00]"

text \<open>\<^verbatim>\<open>n.to_bytes(4, 'big')\<close>, which raises \<^verbatim>\<open>OverflowError\<close> from \<open>2 ^ 32\<close> on.\<close>

definition to_bytes_big4 :: "nat \<Rightarrow> py_error + bytes" where
  "to_bytes_big4 n =
     (if n < 2 ^ 32
      then Inr [of_nat (n div 16777216), of_nat (n div 65536), of_nat (n div 256), of_nat n]
      else Inl OverflowError)"

text \<open>The dictionary \<^verbatim>\<open>payload\<close> of \<^verbatim>\<open>_build_full_request\<close>.\<close>

definition full_request_payload :: "py_lib \<Rightarrow> VolcengineASR \<Rightarrow> str \<Rightarrow> pyval \<Rightarrow> pyval" where
  "full_request_payload lib self request_id end_window_size =
     (let hotwords_list = map (\<lambda>w. PDict [(ascii ''word'', w)]) (asr_hotwords self);
          context_str = json_dumps lib (PDict [(ascii ''hotwords'', PList hotwords_list)])
      in PDict
           [(ascii ''user'', PDict [(ascii ''uid'', PStr request_id)]),
            (ascii ''audio'', PDict
               [(ascii ''format'', asr_format self),
                (ascii ''rate'', asr_sample_rate self),
                (ascii ''bits'', asr_bits self),
                (ascii ''channel'', asr_channels self),
                (ascii ''codec'', PStr (ascii ''raw''))]),
            (ascii ''request'', PDict
               [(ascii ''model_name'', PStr (ascii ''bigmodel'')),
                (ascii ''enable_punc'', PBool True),
                (ascii ''enable_itn'', PBool True),
                (ascii ''enable_ddc'', PBool True),
                (ascii ''result_type'', PStr (ascii ''single'')),
                (ascii ''end_window_size'', end_window_size),
                (ascii ''show_utterances'', PBool True),
                (ascii ''context'', PStr context_str)])])"

definition build_full_request ::
  "py_lib \<Rightarrow> VolcengineASR \<Rightarrow> str \<Rightarrow> pyval \<Rightarrow> py_error + bytes" where
  "build_full_request lib self request_id end_window_size =
     (let payload = full_request_payload lib self request_id end_window_size;
          payload_bytes = utf8_encode lib (json_dumps lib payload);
          compressed = gzip_compress lib payload_bytes;
          header = build_header FULL_CLIENT_REQUEST 0 JSON_SERIALIZATION GZIP_COMPRESSION
      in case to_bytes_big4 (length compressed) of
           Inl e \<Rightarrow> Inl e
         | Inr payload_size \<Rightarrow> Inr (header @ payload_size @ compressed))"

definition build_audio_request :: "py_lib \<Rightarrow> bytes \<Rightarrow> bool \<Rightarrow> py_error + bytes" where
  "build_audio_request lib audio_data is_last =
     (let compressed_audio = gzip_compress lib audio_data;
          msg_flags = (if is_last then 0x02 else 0x00);
          header = build_header AUDIO_ONLY_REQUEST msg_flags NO_SERIALIZATION GZIP_COMPRESSION
      in case to_bytes_big4 (length compressed_audio) of
           Inl e \<Rightarrow> Inl e
         | Inr payload_size \<Rightarrow> Inr (header @ payload_size @ compressed_audio))"

text \<open>\<^verbatim>\<open>data.find(sub)\<close>, counted from \<open>i\<close>: the first position where \<open>sub\<close> starts.\<close>

fun find_from :: "'a list \<Rightarrow> 'a list \<Rightarrow> nat \<Rightarrow> nat option" where
  "find_from sub [] i = (if sub = [] then Some i else None)"
| "find_from sub (x # xs) i =
     (if take (length sub) (x # xs) = sub then Some i else find_from sub xs (i + 1))"

definition bytes_find :: "bytes \<Rightarrow> bytes \<Rightarrow> nat option" where
  "bytes_find data sub = find_from sub data 0"

text \<open>
  The loop \<^verbatim>\<open>for i, char in enumerate(json_data)\<close> that counts braces: the value of
  \<^verbatim>\<open>i + 1\<close> at the \<^verbatim>\<open>break\<close>, if the loop breaks. The code points 123 and 125 are the
  opening and the closing brace.
\<close>

fun brace_scan :: "str \<Rightarrow> nat \<Rightarrow> int \<Rightarrow> nat option" where
  "brace_scan [] i brace_count = None"
| "brace_scan (char # rest) i brace_count =
     (if char = 123 then brace_scan rest (i + 1) (brace_count + 1)
      else if char = 125 then
        (if brace_count - 1 = 0 then Some (i + 1) else brace_scan rest (i + 1) (brace_count - 1))
      else brace_scan rest (i + 1) brace_count)"

text \<open>
  The three attempts of \<^verbatim>\<open>_parse_response\<close>, each \<open>None\<close> when its \<^verbatim>\<open>try\<close> block raises
  or is not entered.
\<close>

definition brace_attempt :: "py_lib \<Rightarrow> bytes \<Rightarrow> pyval option" where
  "brace_attempt lib data =
     (case bytes_find data [0x7B] of
        None \<Rightarrow> None
      | Some json_start \<Rightarrow>
          (let json_data = utf8_decode_ignore lib (drop json_start data);
               json_end = (case brace_scan json_data 0 0 of None \<Rightarrow> json_start | Some e \<Rightarrow> e)
           in json_loads lib (take json_end json_data)))"

definition gzip_magic :: bytes where
  "gzip_magic = [0x1f, 0x8b, 0x08]"

definition loads_bytes :: "py_lib \<Rightarrow> bytes \<Rightarrow> pyval option" where
  "loads_bytes lib bs =
     (case utf8_decode lib bs of None \<Rightarrow> None | Some s \<Rightarrow> json_loads lib s)"

definition gzip_attempt :: "py_lib \<Rightarrow> bytes \<Rightarrow> pyval option" where
  "gzip_attempt lib data =
     (case bytes_find data gzip_magic of
        None \<Rightarrow> None
      | Some gzip_pos \<Rightarrow>
          (case gzip_decompress lib (drop gzip_pos data) of
             None \<Rightarrow> None
           | Some decompressed \<Rightarrow> loads_bytes lib decompressed))"

definition header_size_of :: "bytes \<Rightarrow> nat" where
  "header_size_of data = unat (drop_bit 4 (data ! 1) AND 0x0F) * 4"

definition standard_attempt :: "py_lib \<Rightarrow> bytes \<Rightarrow> pyval option" where
  "standard_attempt lib data =
     (let header_size = header_size_of data
      in if length data > header_size + 4 then
           (let payload_size = from_bytes_big (py_slice data header_size (header_size + 4))
            in if payload_size < length data \<and> payload_size > 0 then
                 (let payload = py_slice data (header_size + 4) (header_size + 4 + payload_size)
                  in case (case gzip_decompress lib payload of
                             None \<Rightarrow> None
                           | Some decompressed \<Rightarrow> loads_bytes lib decompressed) of
                       Some v \<Rightarrow> Some v
                     | None \<Rightarrow> loads_bytes lib payload)
               else None)
         else None)"

text \<open>
  \<^verbatim>\<open>_parse_response\<close>. The message of the first dictionary is the literal of the source,
  in code points.
\<close>

definition parse_response :: "py_lib \<Rightarrow> bytes \<Rightarrow> pyval" where
  "parse_response lib data =
     (if length data < 4 then
        PDict [(ascii ''error'', PStr [0x54CD, 0x5E94, 0x6570, 0x636E, 0x592A, 0x77ED])]
      else
        (let msg_type = (data ! 1) AND 0x0F;
             header_size = header_size_of data
         in case brace_attempt lib data of
              Some v \<Rightarrow> v
            | None \<Rightarrow>
                (case gzip_attempt lib data of
                   Some v \<Rightarrow> v
                 | None \<Rightarrow>
                     (case standard_attempt lib data of
                        Some v \<Rightarrow> v
                      | None \<Rightarrow>
                          PDict [(ascii ''msg_type'', PInt (uint msg_type)),
                                 (ascii ''raw'', PBytes (drop header_size data))]))))"


subsection \<open>The library on sample inputs\<close>

text \<open>
  The values of the library functions at the inputs used below, as CPython computes
  them: the JSON text of \<^verbatim>\<open>{"hotwords": []}\<close> and of the configuration of a recognizer
  with the default audio settings, no hot words, the request id \<^verbatim>\<open>u0\<close> and an end window
  of 500 ms; the gzip streams that \<^verbatim>\<open>gzip.compress\<close> returns for that text and for an
  audio chunk of four bytes when the clock reads 1700000000 (bytes 4 to 7 of the stream
  hold the time of the call); the JSON texts \<^verbatim>\<open>{}\<close> and \<^verbatim>\<open>{"result": {"text": "hi"}}\<close> of
  two server responses. The sample texts are ASCII, where UTF-8 is the identity; the audio
  chunk is not valid UTF-8. Outside the samples the functions of \<open>sample_lib\<close> are not
  those of the library.
\<close>

definition sample_context_bytes :: bytes where
  "sample_context_bytes =
     [123, 34, 104, 111, 116, 119, 111, 114, 100, 115, 34, 58, 32, 91, 93, 125]"

definition sample_config_bytes :: bytes where
  "sample_config_bytes =
     [123, 34, 117, 115, 101, 114, 34, 58, 32, 123, 34, 117, 105, 100, 34, 58, 32, 34,
      117, 48, 34, 125, 44, 32, 34, 97, 117, 100, 105, 111, 34, 58, 32, 123, 34, 102,
      111, 114, 109, 97, 116, 34, 58, 32, 34, 112, 99, 109, 34, 44, 32, 34, 114, 97,
      116, 101, 34, 58, 32, 49, 54, 48, 48, 48, 44, 32, 34, 98, 105, 116, 115, 34, 58,
      32, 49, 54, 44, 32, 34, 99, 104, 97, 110, 110, 101, 108, 34, 58, 32, 49, 44, 32,
      34, 99, 111, 100, 101, 99, 34, 58, 32, 34, 114, 97, 119, 34, 125, 44, 32, 34, 114,
      101, 113, 117, 101, 115, 116, 34, 58, 32, 123, 34, 109, 111, 100, 101, 108, 95,
      110, 97, 109, 101, 34, 58, 32, 34, 98, 105, 103, 109, 111, 100, 101, 108, 34, 44,
      32, 34, 101, 110, 97, 98, 108, 101, 95, 112, 117, 110, 99, 34, 58, 32, 116, 114,
      117, 101, 44, 32, 34, 101, 110, 97, 98, 108, 101, 95, 105, 116, 110, 34, 58, 32,
      116, 114, 117, 101, 44, 32, 34, 101, 110, 97, 98, 108, 101, 95, 100, 100, 99, 34,
      58, 32, 116, 114, 117, 101, 44, 32, 34, 114, 101, 115, 117, 108, 116, 95, 116,
      121, 112, 101, 34, 58, 32, 34, 115, 105, 110, 103, 108, 101, 34, 44, 32, 34, 101,
      110, 100, 95, 119, 105, 110, 100, 111, 119, 95, 115, 105, 122, 101, 34, 58, 32,
      53, 48, 48, 44, 32, 34, 115, 104, 111, 119, 95, 117, 116, 116, 101, 114, 97, 110,
      99, 101, 115, 34, 58, 32, 116, 114, 117, 101, 44, 32, 34, 99, 111, 110, 116, 101,
      120, 116, 34, 58, 32, 34, 123, 92, 34, 104, 111, 116, 119, 111, 114, 100, 115, 92,
      34, 58, 32, 91, 93, 125, 34, 125, 125]"

definition sample_config_gz :: bytes where
  "sample_config_gz =
     [31, 139, 8, 0, 0, 241, 83, 101, 2, 255, 101, 143, 203, 78, 196, 48, 12, 69, 127, 101,
      228, 53, 139, 178, 128, 5, 191, 194, 160, 40, 147, 120, 166, 145, 82, 167, 248,
      161, 2, 85, 255, 125, 156, 176, 24, 36, 86, 201, 185, 55, 62, 114, 118, 48, 65,
      134, 183, 211, 14, 86, 178, 159, 96, 19, 28, 79, 39, 136, 150, 75, 27, 249, 181,
      241, 18, 181, 87, 107, 90, 192, 43, 142, 138, 142, 207, 175, 211, 52, 57, 94, 138,
      202, 64, 191, 167, 57, 18, 97, 237, 216, 169, 101, 76, 125, 144, 227, 54, 164,
      140, 159, 134, 162, 67, 187, 120, 89, 3, 197, 165, 187, 92, 114, 27, 65, 247, 35,
      197, 75, 197, 176, 26, 245, 97, 101, 195, 71, 88, 148, 254, 101, 57, 255, 121,
      199, 40, 86, 53, 232, 247, 58, 188, 82, 232, 86, 241, 215, 154, 195, 86, 40, 183,
      45, 72, 249, 233, 229, 203, 88, 95, 102, 79, 76, 21, 57, 82, 66, 121, 152, 82, 35,
      197, 175, 241, 241, 253, 12, 115, 211, 173, 113, 150, 179, 243, 251, 199, 1, 199,
      113, 7, 19, 78, 118, 174, 59, 1, 0, 0]"

definition sample_audio :: bytes where
  "sample_audio = [0x10, 0x00, 0xF0, 0xFF]"

definition sample_audio_gz :: bytes where
  "sample_audio_gz =
     [31, 139, 8, 0, 0, 241, 83, 101, 2, 255, 19, 96, 248, 240, 31, 0, 179, 134, 227, 72,
      4, 0, 0, 0]"

definition sample_payload :: pyval where
  "sample_payload =
     PDict
       [(ascii ''user'', PDict [(ascii ''uid'', PStr (ascii ''u0''))]),
        (ascii ''audio'', PDict
           [(ascii ''format'', PStr (ascii ''pcm'')),
            (ascii ''rate'', PInt 16000),
            (ascii ''bits'', PInt 16),
            (ascii ''channel'', PInt 1),
            (ascii ''codec'', PStr (ascii ''raw''))]),
        (ascii ''request'', PDict
           [(ascii ''model_name'', PStr (ascii ''bigmodel'')),
            (ascii ''enable_punc'', PBool True),
            (ascii ''enable_itn'', PBool True),
            (ascii ''enable_ddc'', PBool True),
            (ascii ''result_type'', PStr (ascii ''single'')),
            (ascii ''end_window_size'', PInt 500),
            (ascii ''show_utterances'', PBool True),
            (ascii ''context'', PStr (map unat sample_context_bytes))])]"

definition sample_result_bytes :: bytes where
  "sample_result_bytes =
     [123, 34, 114, 101, 115, 117, 108, 116, 34, 58, 32, 123, 34, 116, 101, 120, 116, 34,
      58, 32, 34, 104, 105, 34, 125, 125]"

definition json_samples :: "(pyval \<times> str) list" where
  "json_samples =
     [(PDict [(ascii ''hotwords'', PList [])], map unat sample_context_bytes),
      (sample_payload, map unat sample_config_bytes),
      (PDict [], [123, 125]),
      (PDict [(ascii ''result'', PDict [(ascii ''text'', PStr (ascii ''hi''))])],
       map unat sample_result_bytes)]"

definition gzip_samples :: "(bytes \<times> bytes) list" where
  "gzip_samples =
     [(sample_config_bytes, sample_config_gz), (sample_audio, sample_audio_gz)]"

definition sample_lib :: py_lib where
  "sample_lib =
     \<lparr> gzip_compress = (\<lambda>b. the (map_of gzip_samples b)),
       gzip_decompress = (\<lambda>z. map_of (map (\<lambda>(b, z). (z, b)) gzip_samples) z),
       utf8_encode = (\<lambda>s. map of_nat s),
       utf8_decode = (\<lambda>b. if list_all (\<lambda>x. x < 0x80) b then Some (map unat b) else None),
       utf8_decode_ignore = (\<lambda>b. map unat (filter (\<lambda>x. x < 0x80) b)),
       json_dumps = (\<lambda>v. the (map_of json_samples v)),
       json_loads = (\<lambda>s. map_of (map (\<lambda>(v, s). (s, v)) json_samples) s) \<rparr>"

definition sample_asr :: VolcengineASR where
  "sample_asr =
     \<lparr> asr_format = PStr (ascii ''pcm''), asr_sample_rate = PInt 16000, asr_bits = PInt 16,
       asr_channels = PInt 1, asr_hotwords = [], asr_corrections = [] \<rparr>"

section \<open>asr.py: results and the realtime session\<close>


















subsection \<open>Two server frames\<close>



section \<open>dialog\_manager.py: handling a recognized utterance\<close>

text \<open>
  The calls that \<^verbatim>\<open>_handle_speech\<close> makes, in order: \<^verbatim>\<open>self.brain.chat(text, speaker=...,
  debug=False)\<close>; \<^verbatim>\<open>self._speak(text, interruptible)\<close>, with the outcome of the playback;
  \<^verbatim>\<open>speaker_id.identify\<close>, \<^verbatim>\<open>speaker_id.update_embedding\<close> and
  \<^verbatim>\<open>speaker_id.set_pending_registration\<close>.
\<close>

datatype action =
    Chat str "str option"
  | Speak str bool speak_result
  | Identify bytes
  | UpdateEmbedding str "real list"
  | SetPendingRegistration "real list"

fun is_chat :: "action \<Rightarrow> bool" where
  "is_chat (Chat user_input speaker) = True"
| "is_chat other = False"

text \<open>
  The collaborators of \<^verbatim>\<open>VoiceDialogManager\<close>, as parameters: \<^verbatim>\<open>brain.chat\<close>, which may
  raise; whether \<^verbatim>\<open>self.speaker_id\<close> is set; \<^verbatim>\<open>speaker_id.identify\<close>, which may raise and
  gives the speaker id, the similarity and the embedding; \<^verbatim>\<open>speaker_id.get_speaker_name\<close>;
  the chunks that \<^verbatim>\<open>tts.synthesize_stream\<close> yields for a text; and the method
  \<^verbatim>\<open>_handle_name_response\<close> of the registration dialog, which is not modelled here. The
  other methods of \<^verbatim>\<open>speaker_id\<close> are taken to return.
\<close>

record collaborators =
  brain_chat :: "str \<Rightarrow> str option \<Rightarrow> py_error + str"
  has_speaker_id :: bool
  identify :: "bytes \<Rightarrow> py_error + str option \<times> real \<times> real list option"
  get_speaker_name :: "str \<Rightarrow> str option"
  synthesize_stream :: "str \<Rightarrow> bytes list"
  handle_name_response ::
    "DialogManager \<Rightarrow> str \<Rightarrow> bytes \<Rightarrow> DialogManager \<times> action list \<times> py_error option"

text \<open>
  The literal \<^verbatim>\<open>ask_text\<close> of \<^verbatim>\<open>_ask_for_name\<close> and the literal that the exit branch of
  \<^verbatim>\<open>_handle_speech\<close> gives to \<^verbatim>\<open>brain.chat\<close>, in code points.
\<close>

definition ask_text :: str where
  "ask_text =
     [0x4F60, 0x597D, 0x5440, 0x007E, 0x6211, 0x597D, 0x50CF, 0x8FD8, 0x4E0D, 0x8BA4, 0x8BC6,
      0x4F60, 0x5462, 0xFF0C, 0x4F60, 0x53EB, 0x4EC0, 0x4E48, 0x540D, 0x5B57, 0x5440, 0xFF1F]"

definition farewell_prompt :: str where
  "farewell_prompt = [0x518D, 0x89C1]"

text \<open>
  \<^verbatim>\<open>_ask_for_name\<close>. \<open>reads\<close> is what the reads of the capture stream do during the
  playback of this turn.
\<close>

definition ask_for_name ::
  "collaborators \<Rightarrow> VADDetector \<Rightarrow> (nat \<Rightarrow> py_error + bytes) \<Rightarrow> DialogManager \<Rightarrow>
   DialogManager \<times> action list" where
  "ask_for_name co v reads dm =
     (case speak (dm \<lparr> awaiting_name := True \<rparr>) v reads False (synthesize_stream co ask_text) of
        (dm', r) \<Rightarrow> (dm', [Speak ask_text False r]))"

text \<open>
  \<^verbatim>\<open>_identify_speaker\<close>: the new state, the calls made, and the name returned or the
  exception raised.
\<close>

definition identify_speaker ::
  "collaborators \<Rightarrow> VADDetector \<Rightarrow> (nat \<Rightarrow> py_error + bytes) \<Rightarrow> DialogManager \<Rightarrow> bytes \<Rightarrow>
   DialogManager \<times> action list \<times> (py_error + str option)" where
  "identify_speaker co v reads dm audio_data =
     (if \<not> has_speaker_id co \<or> audio_data = [] then (dm, [], Inr (current_speaker_name dm))
      else case identify co audio_data of
        Inl e \<Rightarrow> (dm, [Identify audio_data], Inl e)
      | Inr (speaker_id_result, similarity, embedding) \<Rightarrow>
          (case speaker_id_result of
             Some sid \<Rightarrow>
               if sid \<noteq> [] then
                 (dm \<lparr> current_speaker_name := get_speaker_name co sid \<rparr>,
                  Identify audio_data #
                    (case embedding of None \<Rightarrow> [] | Some emb \<Rightarrow> [UpdateEmbedding sid emb]),
                  Inr (get_speaker_name co sid))
               else
                 (case embedding of
                    None \<Rightarrow> (dm, [Identify audio_data], Inr (current_speaker_name dm))
                  | Some emb \<Rightarrow>
                      (case ask_for_name co v reads dm of
                         (dm', acts) \<Rightarrow>
                           (dm', Identify audio_data # SetPendingRegistration emb # acts,
                            Inr None)))
           | None \<Rightarrow>
               (case embedding of
                  None \<Rightarrow> (dm, [Identify audio_data], Inr (current_speaker_name dm))
                | Some emb \<Rightarrow>
                    (case ask_for_name co v reads dm of
                       (dm', acts) \<Rightarrow>
                         (dm', Identify audio_data # SetPendingRegistration emb # acts,
                          Inr None)))))"

text \<open>\<^verbatim>\<open>any(kw in user_text for kw in self.exit_keywords)\<close>\<close>

definition exit_requested :: "DialogManager \<Rightarrow> str \<Rightarrow> bool" where
  "exit_requested dm user_text =
     list_ex (\<lambda>kw. find_from kw user_text 0 \<noteq> None) (exit_keywords dm)"

text \<open>
  \<^verbatim>\<open>_handle_speech\<close>: the new state, the calls made in order, and the exception that
  leaves the method, if any.
\<close>

definition handle_speech ::
  "collaborators \<Rightarrow> VADDetector \<Rightarrow> (nat \<Rightarrow> py_error + bytes) \<Rightarrow> DialogManager \<Rightarrow> str \<Rightarrow> bytes \<Rightarrow>
   DialogManager \<times> action list \<times> py_error option" where
  "handle_speech co v reads dm user_text audio_data =
     (if awaiting_name dm then handle_name_response co dm user_text audio_data
      else case identify_speaker co v reads dm audio_data of
        (dm1, acts1, Inl e) \<Rightarrow> (dm1, acts1, Some e)
      | (dm1, acts1, Inr speaker_name) \<Rightarrow>
          if awaiting_name dm1 then (dm1, acts1, None)
          else if exit_requested dm1 user_text then
            (case brain_chat co farewell_prompt speaker_name of
               Inl e \<Rightarrow> (dm1, acts1 @ [Chat farewell_prompt speaker_name], Some e)
             | Inr farewell \<Rightarrow>
                 (case speak dm1 v reads False (synthesize_stream co farewell) of
                    (dm2, r) \<Rightarrow>
                      (dm2 \<lparr> running := False \<rparr>,
                       acts1 @ [Chat farewell_prompt speaker_name, Speak farewell False r],
                       None)))
          else
            (case brain_chat co user_text speaker_name of
               Inl e \<Rightarrow> (dm1, acts1 @ [Chat user_text speaker_name], Some e)
             | Inr reply \<Rightarrow>
                 (case speak dm1 v reads True (synthesize_stream co reply) of
                    (dm2, r) \<Rightarrow>
                      (dm2, acts1 @ [Chat user_text speaker_name, Speak reply True r], None))))"

text \<open>
  What one round of listening in \<^verbatim>\<open>_main_loop\<close> brings: no speech (or an exception, which
  the loop catches), or the pair that \<^verbatim>\<open>_realtime_recognize\<close> returns, together with what
  the capture reads do during the playback of the reply.
\<close>

datatype heard =
    NoSpeech
  | Recognized "str option" bytes "nat \<Rightarrow> py_error + bytes"

text \<open>
  \<^verbatim>\<open>_main_loop\<close> over the scripted rounds of listening: the state when the loop is left,
  the calls made, and the rounds that were not used. The first argument bounds the
  number of passes through the loop body; the result is \<open>None\<close> when the bound or the
  script is used up while \<^verbatim>\<open>self.running\<close> still holds. An exception of
  \<^verbatim>\<open>_handle_speech\<close> is caught and the loop goes on. The subtraction is over the reals.
\<close>

fun main_loop ::
  "nat \<Rightarrow> collaborators \<Rightarrow> VADDetector \<Rightarrow> heard list \<Rightarrow> DialogManager \<Rightarrow> action list \<Rightarrow>
   (DialogManager \<times> action list \<times> heard list) option" where
  "main_loop 0 co v script dm acts = (if running dm then None else Some (dm, acts, script))"
| "main_loop (Suc n) co v script dm acts =
     (if \<not> running dm then Some (dm, acts, script)
      else if \<not> aec_enabled dm \<and> is_speaking dm then main_loop n co v script dm acts
      else if \<not> aec_enabled dm \<and> wait_after_speak dm > 0 then
        main_loop n co v script (dm \<lparr> wait_after_speak := wait_after_speak dm - 0.1 \<rparr>) acts
      else
        (case script of
           [] \<Rightarrow> None
         | NoSpeech # rest \<Rightarrow> main_loop n co v rest dm acts
         | Recognized final_text audio_data reads # rest \<Rightarrow>
             if final_text = None \<or> final_text = Some [] then main_loop n co v rest dm acts
             else
               (case handle_speech co v reads dm (the final_text) audio_data of
                  (dm', acts', err) \<Rightarrow> main_loop n co v rest dm' (acts @ acts'))))"

subsection \<open>Collaborators to run the model on\<close>

text \<open>
  A brain that answers \<^verbatim>\<open>bye\<close> (the code points of the three letters) to everything, a
  synthesizer that yields one chunk of three bytes for every text, and a registration
  dialog that does nothing. \<open>plain_co\<close> has no speaker identification, as the constructor
  leaves it by default; \<open>stranger_co\<close> has a speaker identification without registered
  voices, for which every voice is unknown: \<^verbatim>\<open>identify\<close> returns \<^verbatim>\<open>(None, 0.0, embedding)\<close>.
\<close>

definition plain_co :: collaborators where
  "plain_co =
     \<lparr> brain_chat = (\<lambda>user_input speaker. Inr [98, 121, 101]),
       has_speaker_id = False,
       identify = (\<lambda>audio_data. Inr (None, 0, None)),
       get_speaker_name = (\<lambda>sid. None),
       synthesize_stream = (\<lambda>text. [[1, 2, 3]]),
       handle_name_response = (\<lambda>dm user_text audio_data. (dm, [], None)) \<rparr>"

definition stranger_co :: collaborators where
  "stranger_co = plain_co \<lparr> has_speaker_id := True,
                            identify := (\<lambda>audio_data. Inr (None, 0, Some [1, 0])) \<rparr>"

text \<open>The playback of the one chunk, which is below the buffer threshold.\<close>

definition short_playback :: speak_result where
  "short_playback = \<lparr> played = [[1, 2, 3]], unconsumed = [], reads_used = 0, interrupted = False \<rparr>"

chapter \<open>Verification\<close>

section \<open>VADDetector.is_speech\<close>

lemma length_normalize_chunk: "length (normalize_chunk fsz c) = fsz"
  by (simp add: normalize_chunk_def)

text \<open>
  Claim C9. \<^verbatim>\<open>is_speech\<close> is total on byte strings: for every chunk, of any length, it
  returns a boolean and never raises; when the classifier raises, the result is False,
  and when the classifier answers, the result is its answer.
\<close>

theorem is_speech_total:
  "(\<exists>b. is_speech self c = Inr b) \<and>
   is_speech self c =
     Inr (case vad self (normalize_chunk (frame_size self) c) of Inl e \<Rightarrow> False | Inr b \<Rightarrow> b)"
  by (cases "vad self (normalize_chunk (frame_size self) c)") (auto simp: is_speech_def)


text \<open>
  Claim C7. The classifier is handed a buffer of exactly the configured frame size: a
  shorter chunk is padded with zero bytes at the end, a longer one is cut, and a chunk of
  the right size is passed as it is. The chunk that the callers keep is not changed: the
  frames that \<^verbatim>\<open>detect_speech_segments\<close> records and returns are the frames it read.
\<close>

theorem is_speech_frame_size:
  "length (normalize_chunk (frame_size self) c) = frame_size self \<and>
   normalize_chunk (frame_size self) c =
     (if length c < frame_size self then c @ replicate (frame_size self - length c) 0
      else take (frame_size self) c) \<and>
   is_speech self c =
     (case vad self (normalize_chunk (frame_size self) c) of
        Inl e \<Rightarrow> Inr False | Inr b \<Rightarrow> Inr b) \<and>
   (\<forall>st st'. process_frame self st c = Inr (Continue st') \<longrightarrow>
      set (voiced_frames st') \<subseteq> set (voiced_frames st) \<union> fst ` set (ring_buffer st) \<union> {c})"
proof -
  have stored: "set (voiced_frames st') \<subseteq>
                  set (voiced_frames st) \<union> fst ` set (ring_buffer st) \<union> {c}"
    if step: "process_frame self st c = Inr (Continue st')" for st st'
  proof -
    have sub: "set (map fst (deque_append n (ring_buffer st) (c, b))) \<subseteq>
                 fst ` set (ring_buffer st) \<union> {c}" for n b
    proof -
      have "set (deque_append n (ring_buffer st) (c, b)) \<subseteq> set (ring_buffer st @ [(c, b)])"
        unfolding deque_append_def by (rule set_drop_subset)
      then have "fst ` set (deque_append n (ring_buffer st) (c, b)) \<subseteq>
                   fst ` set (ring_buffer st @ [(c, b)])"
        by (rule image_mono)
      then show ?thesis by simp
    qed
    from step have "voiced_frames st' = voiced_frames st \<or>
        voiced_frames st' = voiced_frames st @ [c] \<or>
        (\<exists>b. voiced_frames st' =
           voiced_frames st @ map fst (deque_append (speech_end_frames self) (ring_buffer st) (c, b)))"
      by (auto simp: process_frame_def Let_def split: if_splits sum.splits)
    then show ?thesis
    proof (elim disjE exE)
      fix b
      assume v: "voiced_frames st' =
           voiced_frames st @ map fst (deque_append (speech_end_frames self) (ring_buffer st) (c, b))"
      from sub[of "speech_end_frames self" b] show ?thesis
        unfolding v by auto
    qed auto
  qed
  have norm: "normalize_chunk (frame_size self) c =
     (if length c < frame_size self then c @ replicate (frame_size self - length c) 0
      else take (frame_size self) c)"
    by (simp add: normalize_chunk_def)
  from stored norm show ?thesis
    by (simp add: length_normalize_chunk is_speech_def)
qed


section \<open>VADDetector.detect\_speech\_segments\<close>

lemma is_speech_speech: "is_speech self f = Inr (speech self f)"
  by (cases "vad self (normalize_chunk (frame_size self) f)") (simp_all add: is_speech_def speech_def)

lemma split_frames_single: "0 < fsz \<Longrightarrow> length c = fsz \<Longrightarrow> split_frames fsz c = [c]"
  by (simp add: split_frames_def)

lemma run_frames_append:
  "run_frames self st (xs @ ys) =
     (case run_frames self st xs of
        Inl e \<Rightarrow> Inl e
      | Inr (Return r) \<Rightarrow> Inr (Return r)
      | Inr (Continue st') \<Rightarrow> run_frames self st' ys)"
  by (induction xs arbitrary: st) (auto split: sum.splits detect_step.splits)

lemma run_chunks_frames:
  assumes "0 < frame_size self" "\<forall>c\<in>set stream. length c = frame_size self"
  shows "run_chunks self st stream =
     (case run_frames self st stream of
        Inl e \<Rightarrow> Inl e
      | Inr (Return r) \<Rightarrow> Inr r
      | Inr (Continue st') \<Rightarrow> run_chunks self st' [])"
  using assms
proof (induction stream arbitrary: st)
  case Nil
  then show ?case by simp
next
  case (Cons c cs)
  then show ?case
    by (auto simp: split_frames_single split: sum.splits detect_step.splits)
qed

lemma rev_deque_append: "rev (deque_append n dq x) = take n (x # rev dq)"
proof -
  have "rev (deque_append n dq x) =
          take (length (dq @ [x]) - (Suc (length dq) - n)) (rev (dq @ [x]))"
    unfolding deque_append_def by (rule rev_drop)
  also have "\<dots> = take (min n (Suc (length dq))) (x # rev dq)"
    by (simp add: min_def)
  also have "\<dots> = take n (x # rev dq)"
    by (simp add: min_def)
  finally show ?thesis .
qed

lemma length_deque_append: "length (deque_append n dq x) = min n (Suc (length dq))"
  by (simp add: deque_append_def)

lemma rev_map_fst_deque_append:
  assumes a: "rev (map fst rb) = take n rfs"
  shows "rev (map fst (deque_append n rb (f, b))) = take n (f # rfs)"
proof -
  have "rev (map fst (deque_append n rb (f, b))) =
          map fst (rev (deque_append n rb (f, b)))"
    by (simp add: rev_map)
  also have "\<dots> = map fst (take n ((f, b) # rev rb))"
    by (simp only: rev_deque_append)
  also have "\<dots> = take n (f # rev (map fst rb))"
    by (cases n) (simp_all add: take_map rev_map)
  also have "\<dots> = take n (f # rfs)"
    unfolding a by (cases n) simp_all
  finally show ?thesis .
qed

lemma detect_inv_init: "detect_inv self [] detect_init"
  by (simp add: detect_inv_def detect_init_def)

lemma process_frame_unfold:
  assumes "frame_size self \<le> length f"
  shows "process_frame self st f =
     (if \<not> triggered st then
        (if speech_start_frames self \<le> (if speech self f then speech_count st + 1 else 0) then
           Inr (Continue \<lparr> ring_buffer = [], triggered = True,
                  voiced_frames = voiced_frames st @
                     map fst (deque_append (speech_end_frames self) (ring_buffer st) (f, speech self f)),
                  speech_count = 0, silence_count = 0 \<rparr>)
         else
           Inr (Continue \<lparr> ring_buffer = deque_append (speech_end_frames self) (ring_buffer st) (f, speech self f),
                  triggered = False, voiced_frames = voiced_frames st,
                  speech_count = (if speech self f then speech_count st + 1 else 0),
                  silence_count = (if speech self f then 0 else silence_count st + 1) \<rparr>))
      else
        (if speech_end_frames self \<le> (if \<not> speech self f then silence_count st + 1 else 0) then
           Inr (Return (if concat (slice_to_neg (speech_end_frames self) (voiced_frames st @ [f])) \<noteq> []
                        then Some (concat (slice_to_neg (speech_end_frames self) (voiced_frames st @ [f])))
                        else None))
         else
           Inr (Continue \<lparr> ring_buffer = deque_append (speech_end_frames self) (ring_buffer st) (f, speech self f),
                  triggered = True, voiced_frames = voiced_frames st @ [f],
                  speech_count = (if \<not> speech self f then 0 else speech_count st + 1),
                  silence_count = (if \<not> speech self f then silence_count st + 1 else 0) \<rparr>)))"
  using assms by (simp add: process_frame_def is_speech_speech Let_def)

lemma process_frame_inv:
  assumes inv: "detect_inv self rfs st" and len: "frame_size self \<le> length f"
    and step: "process_frame self st f = Inr (Continue st')"
  shows "detect_inv self (f # rfs) st'"
proof (cases "triggered st")
  case True
  from inv True obtain n where n: "rev (voiced_frames st) = take n rfs"
    and sc: "silence_count st \<le> length (voiced_frames st)"
    and sil: "\<forall>x\<in>set (take (silence_count st) rfs). \<not> speech self x"
    by (auto simp: detect_inv_def)
  have n': "rev (voiced_frames st @ [f]) = take (Suc n) (f # rfs)"
    using n by simp
  then have ex: "\<exists>m. rev (voiced_frames st @ [f]) = take m (f # rfs)" ..
  from step True have st': "st' = \<lparr> ring_buffer = deque_append (speech_end_frames self) (ring_buffer st) (f, speech self f),
                  triggered = True, voiced_frames = voiced_frames st @ [f],
                  speech_count = (if \<not> speech self f then 0 else speech_count st + 1),
                  silence_count = (if \<not> speech self f then silence_count st + 1 else 0) \<rparr>"
    by (simp add: process_frame_unfold[OF len] split: if_splits)
  show ?thesis
    unfolding detect_inv_def st'
    using sc sil ex by (auto simp: length_deque_append simp del: rev_append)
next
  case False
  from inv False have vf: "voiced_frames st = []"
    and rb: "rev (map fst (ring_buffer st)) = take (speech_end_frames self) rfs"
    and sp: "\<forall>x\<in>set (take (speech_count st) rfs). speech self x"
    and scl: "speech_count st \<le> length rfs"
    by (auto simp: detect_inv_def)
  note rb' = rev_map_fst_deque_append[OF rb, of f "speech self f"]
  show ?thesis
  proof (cases "speech_start_frames self \<le> (if speech self f then speech_count st + 1 else 0)")
    case True
    with step False have st': "st' = \<lparr> ring_buffer = [], triggered = True,
                  voiced_frames = voiced_frames st @
                     map fst (deque_append (speech_end_frames self) (ring_buffer st) (f, speech self f)),
                  speech_count = 0, silence_count = 0 \<rparr>"
      by (simp add: process_frame_unfold[OF len] split: if_splits)
    show ?thesis
      unfolding detect_inv_def st'
      using rb' vf by auto
  next
    case c: False
    with step False have st': "st' = \<lparr> ring_buffer = deque_append (speech_end_frames self) (ring_buffer st) (f, speech self f),
                  triggered = False, voiced_frames = voiced_frames st,
                  speech_count = (if speech self f then speech_count st + 1 else 0),
                  silence_count = (if speech self f then 0 else silence_count st + 1) \<rparr>"
      by (simp add: process_frame_unfold[OF len] split: if_splits)
    show ?thesis
      unfolding detect_inv_def st'
      using rb' vf sp scl by (auto simp: length_deque_append)
  qed
qed

lemma run_frames_inv:
  assumes "detect_inv self rfs st" "\<forall>c\<in>set fs. frame_size self \<le> length c"
    and "run_frames self st fs = Inr (Continue st')"
  shows "detect_inv self (rev fs @ rfs) st'"
  using assms
proof (induction fs arbitrary: st rfs)
  case Nil
  then show ?case by simp
next
  case (Cons f fs)
  from Cons.prems(3) obtain st1 where s1: "process_frame self st f = Inr (Continue st1)"
    and r: "run_frames self st1 fs = Inr (Continue st')"
    by (auto split: sum.splits detect_step.splits)
  from process_frame_inv[OF Cons.prems(1) _ s1] Cons.prems(2)
  have "detect_inv self (f # rfs) st1" by simp
  from Cons.IH[OF this _ r] Cons.prems(2) show ?case by simp
qed


lemma replicate_num: "replicate (numeral k) x = x # replicate (pred_numeral k) x"
  by (simp add: numeral_eq_Suc)

lemma demo_frames [simp]:
  "length speech_frame = 960" "length silence_frame = 960"
  "speech demo_vad speech_frame" "\<not> speech demo_vad silence_frame"
  "speech_frame \<noteq> []" "silence_frame \<noteq> []"
  by (simp_all add: speech_def demo_vad_def energy_vad_def normalize_chunk_def
        speech_frame_def silence_frame_def)

lemma demo_params [simp]:
  "frame_size demo_vad = 960" "speech_start_frames demo_vad = 10" "speech_end_frames demo_vad = 20"
  by (simp_all add: demo_vad_def)

lemma demo_step:
  "process_frame demo_vad st silence_frame = 
     (if \<not> triggered st then
           Inr (Continue \<lparr> ring_buffer = deque_append 20 (ring_buffer st) (silence_frame, False),
                  triggered = False, voiced_frames = voiced_frames st,
                  speech_count = 0,
                  silence_count = silence_count st + 1 \<rparr>)
      else
        (if 20 \<le> silence_count st + 1 then
           Inr (Return (if concat (slice_to_neg 20 (voiced_frames st @ [silence_frame])) \<noteq> []
                        then Some (concat (slice_to_neg 20 (voiced_frames st @ [silence_frame])))
                        else None))
         else
           Inr (Continue \<lparr> ring_buffer = deque_append 20 (ring_buffer st) (silence_frame, False),
                  triggered = True, voiced_frames = voiced_frames st @ [silence_frame],
                  speech_count = 0,
                  silence_count = silence_count st + 1 \<rparr>)))"
  "process_frame demo_vad st speech_frame =
     (if \<not> triggered st then
        (if 10 \<le> speech_count st + 1 then
           Inr (Continue \<lparr> ring_buffer = [], triggered = True,
                  voiced_frames = voiced_frames st @
                     map fst (deque_append 20 (ring_buffer st) (speech_frame, True)),
                  speech_count = 0, silence_count = 0 \<rparr>)
         else
           Inr (Continue \<lparr> ring_buffer = deque_append 20 (ring_buffer st) (speech_frame, True),
                  triggered = False, voiced_frames = voiced_frames st,
                  speech_count = speech_count st + 1,
                  silence_count = 0 \<rparr>))
      else
           Inr (Continue \<lparr> ring_buffer = deque_append 20 (ring_buffer st) (speech_frame, True),
                  triggered = True, voiced_frames = voiced_frames st @ [speech_frame],
                  speech_count = speech_count st + 1,
                  silence_count = 0 \<rparr>))"
  by (simp_all add: process_frame_unfold)

lemma take_rev_set: "set (take n (rev xs)) = set (drop (length xs - n) xs)"
  by (simp add: take_rev)

lemma detect_start_only_after:
  assumes run: "run_frames self detect_init frames = Inr (Continue st)"
    and len: "\<forall>c\<in>set (frames @ [f]). length c = frame_size self"
    and nt: "\<not> triggered st"
    and step: "process_frame self st f = Inr (Continue st')" and t: "triggered st'"
  shows "speech_start_frames self \<le> length (frames @ [f]) \<and>
         (\<forall>x\<in>set (drop (length (frames @ [f]) - speech_start_frames self) (frames @ [f])).
             is_speech self x = Inr True)"
proof -
  from len have l1: "\<forall>c\<in>set frames. frame_size self \<le> length c" and l2: "frame_size self \<le> length f"
    by simp_all
  from run_frames_inv[OF detect_inv_init l1 run] have inv: "detect_inv self (rev frames) st" by simp
  with nt have sp: "\<forall>x\<in>set (take (speech_count st) (rev frames)). speech self x"
    and scl: "speech_count st \<le> length frames"
    by (auto simp: detect_inv_def)
  from step nt t have c: "speech_start_frames self \<le> (if speech self f then speech_count st + 1 else 0)"
    by (auto simp: process_frame_unfold[OF l2] split: if_splits)
  then have n: "speech_start_frames self \<le> Suc (length frames)"
    using scl by (auto split: if_splits)
  have "\<forall>x\<in>set (take (speech_start_frames self) (rev (frames @ [f]))). speech self x"
  proof (cases "speech self f")
    case True
    with c have "speech_start_frames self \<le> Suc (speech_count st)" by simp
    then have "set (take (speech_start_frames self) (f # rev frames)) \<subseteq>
                 insert f (set (take (speech_count st) (rev frames)))"
      by (cases "speech_start_frames self") (auto dest: set_take_subset_set_take[THEN subsetD, rotated])
    with sp True show ?thesis by auto
  next
    case False
    with c show ?thesis by simp
  qed
  then have "\<forall>x\<in>set (drop (length (frames @ [f]) - speech_start_frames self) (frames @ [f])). speech self x"
    unfolding take_rev_set .
  with n show ?thesis by (simp add: is_speech_speech)
qed


lemma drop_as_rev_take: "drop (length xs - n) xs = rev (take n (rev xs))"
  by (simp add: take_rev)

lemma take_Cons_take_le: "k \<le> Suc n \<Longrightarrow> take k (x # take n xs) = take k (x # xs)"
  by (cases k) (simp_all add: min_def)

lemma detect_end_only_after:
  assumes run: "run_frames self detect_init frames = Inr (Continue st)"
    and len: "\<forall>c\<in>set (frames @ [f]). length c = frame_size self"
    and E: "0 < speech_end_frames self"
    and step: "process_frame self st f = Inr (Return r)"
  shows "triggered st \<and>
         speech_end_frames self \<le> length (voiced_frames st @ [f]) \<and>
         (\<forall>x\<in>set (drop (length (frames @ [f]) - speech_end_frames self) (frames @ [f])).
             is_speech self x = Inr False) \<and>
         drop (length (voiced_frames st @ [f]) - speech_end_frames self) (voiced_frames st @ [f]) =
           drop (length (frames @ [f]) - speech_end_frames self) (frames @ [f]) \<and>
         r = (if concat (take (length (voiced_frames st @ [f]) - speech_end_frames self)
                           (voiced_frames st @ [f])) = [] then None
              else Some (concat (take (length (voiced_frames st @ [f]) - speech_end_frames self)
                           (voiced_frames st @ [f]))))"
proof -
  from len have l1: "\<forall>c\<in>set frames. frame_size self \<le> length c" and l2: "frame_size self \<le> length f"
    by simp_all
  from run_frames_inv[OF detect_inv_init l1 run] have inv: "detect_inv self (rev frames) st" by simp
  from step have tr: "triggered st"
    by (auto simp: process_frame_unfold[OF l2] split: if_splits)
  from step tr E have nsp: "\<not> speech self f" and c: "speech_end_frames self \<le> Suc (silence_count st)"
    and r: "r = (if concat (slice_to_neg (speech_end_frames self) (voiced_frames st @ [f])) \<noteq> []
                        then Some (concat (slice_to_neg (speech_end_frames self) (voiced_frames st @ [f])))
                        else None)"
    by (auto simp: process_frame_unfold[OF l2] split: if_splits)
  from inv tr obtain n where n: "rev (voiced_frames st) = take n (rev frames)"
    and sc: "silence_count st \<le> length (voiced_frames st)"
    and sil: "\<forall>x\<in>set (take (silence_count st) (rev frames)). \<not> speech self x"
    by (auto simp: detect_inv_def)
  from n have "length (voiced_frames st) = length (take n (rev frames))"
    by (metis length_rev)
  then have ln: "length (voiced_frames st) \<le> n" by simp
  from c sc have e1: "speech_end_frames self \<le> length (voiced_frames st @ [f])" by simp
  have "set (take (speech_end_frames self) (f # rev frames)) \<subseteq>
          insert f (set (take (silence_count st) (rev frames)))"
    using c by (cases "speech_end_frames self") (auto dest: set_take_subset_set_take[THEN subsetD, rotated])
  with sil nsp have "\<forall>x\<in>set (take (speech_end_frames self) (rev (frames @ [f]))). \<not> speech self x"
    by auto
  then have e2: "\<forall>x\<in>set (drop (length (frames @ [f]) - speech_end_frames self) (frames @ [f])).
             is_speech self x = Inr False"
    unfolding take_rev_set by (simp add: is_speech_speech)
  have "take (speech_end_frames self) (rev (voiced_frames st @ [f])) =
        take (speech_end_frames self) (f # take n (rev frames))"
    using n by simp
  also have "\<dots> = take (speech_end_frames self) (f # rev frames)"
    using c sc ln by (intro take_Cons_take_le) simp
  finally have "take (speech_end_frames self) (rev (voiced_frames st @ [f])) =
        take (speech_end_frames self) (rev (frames @ [f]))" by simp
  then have e3: "drop (length (voiced_frames st @ [f]) - speech_end_frames self) (voiced_frames st @ [f]) =
           drop (length (frames @ [f]) - speech_end_frames self) (frames @ [f])"
    unfolding drop_as_rev_take by (rule arg_cong)
  from r E have e4: "r = (if concat (take (length (voiced_frames st @ [f]) - speech_end_frames self)
                           (voiced_frames st @ [f])) = [] then None
              else Some (concat (take (length (voiced_frames st @ [f]) - speech_end_frames self)
                           (voiced_frames st @ [f]))))"
    by (simp add: slice_to_neg_def)
  from tr e1 e2 e3 e4 show ?thesis by blast
qed

lemma detect_stream_end:
  assumes "0 < frame_size self" "\<forall>c\<in>set frames. length c = frame_size self"
    and "run_frames self detect_init frames = Inr (Continue st)"
  shows "detect_speech_segments self frames =
           Inr (if triggered st \<and> voiced_frames st \<noteq> [] then Some (concat (voiced_frames st)) else None)"
  using assms by (simp add: detect_speech_segments_def run_chunks_frames)

lemma detect_returned:
  assumes "0 < frame_size self" "\<forall>c\<in>set (frames @ f # rest). length c = frame_size self"
    and "run_frames self detect_init frames = Inr (Continue st)"
    and "process_frame self st f = Inr (Return r)"
  shows "detect_speech_segments self (frames @ f # rest) = Inr r"
  using assms by (simp add: detect_speech_segments_def run_chunks_frames run_frames_append)



text \<open>
  Claim C1 (as amended). Let the detector have processed the frames \<open>frames\<close> of a
  stream of frame-sized chunks without returning, and be in state \<open>st\<close>; let \<open>f\<close> be the
  next frame.
  \<^item> If \<open>f\<close> starts a turn, the last \<open>speech_start_frames\<close> frames up to \<open>f\<close> were all
    classified as speech.
  \<^item> If the detector returns at \<open>f\<close>, a turn was active, the last \<open>speech_end_frames\<close>
    frames up to \<open>f\<close> were all classified as silence, they are the last recorded frames,
    the returned audio is the recorded frames without them, and that is the result of
    \<^verbatim>\<open>detect_speech_segments\<close> whatever follows in the stream.
  \<^item> If the stream ends after \<open>frames\<close>, the result is every recorded frame of the
    active turn, with nothing removed (None when no turn is active).
\<close>

theorem detect_turn_boundaries:
  assumes "0 < frame_size self" and "0 < speech_end_frames self"
    and "\<forall>c\<in>set (frames @ [f]). length c = frame_size self"
    and "run_frames self detect_init frames = Inr (Continue st)"
  shows
    "(\<forall>st'. \<not> triggered st \<and> process_frame self st f = Inr (Continue st') \<and> triggered st' \<longrightarrow>
        speech_start_frames self \<le> length (frames @ [f]) \<and>
        (\<forall>x\<in>set (drop (length (frames @ [f]) - speech_start_frames self) (frames @ [f])).
            is_speech self x = Inr True)) \<and>
     (\<forall>r. process_frame self st f = Inr (Return r) \<longrightarrow>
        triggered st \<and>
        speech_end_frames self \<le> length (voiced_frames st @ [f]) \<and>
        (\<forall>x\<in>set (drop (length (frames @ [f]) - speech_end_frames self) (frames @ [f])).
            is_speech self x = Inr False) \<and>
        drop (length (voiced_frames st @ [f]) - speech_end_frames self) (voiced_frames st @ [f]) =
          drop (length (frames @ [f]) - speech_end_frames self) (frames @ [f]) \<and>
        r = (if concat (take (length (voiced_frames st @ [f]) - speech_end_frames self)
                          (voiced_frames st @ [f])) = [] then None
             else Some (concat (take (length (voiced_frames st @ [f]) - speech_end_frames self)
                          (voiced_frames st @ [f])))) \<and>
        (\<forall>rest. (\<forall>c\<in>set rest. length c = frame_size self) \<longrightarrow>
            detect_speech_segments self (frames @ f # rest) = Inr r)) \<and>
     detect_speech_segments self frames =
       Inr (if triggered st \<and> voiced_frames st \<noteq> [] then Some (concat (voiced_frames st)) else None)"
proof (intro conjI allI impI)
  fix st'
  assume "\<not> triggered st \<and> process_frame self st f = Inr (Continue st') \<and> triggered st'"
  then have a: "\<not> triggered st" "process_frame self st f = Inr (Continue st')" "triggered st'"
    by simp_all
  from detect_start_only_after[OF assms(4) assms(3) a]
  show "speech_start_frames self \<le> length (frames @ [f])"
    and "\<forall>x\<in>set (drop (length (frames @ [f]) - speech_start_frames self) (frames @ [f])).
            is_speech self x = Inr True"
    by simp_all
next
  fix r
  assume ret: "process_frame self st f = Inr (Return r)"
  note e = detect_end_only_after[OF assms(4) assms(3) assms(2) ret]
  from e show "triggered st" by simp
  from e show "speech_end_frames self \<le> length (voiced_frames st @ [f])" by simp
  from e show "\<forall>x\<in>set (drop (length (frames @ [f]) - speech_end_frames self) (frames @ [f])).
            is_speech self x = Inr False" by simp
  from e show "drop (length (voiced_frames st @ [f]) - speech_end_frames self) (voiced_frames st @ [f]) =
          drop (length (frames @ [f]) - speech_end_frames self) (frames @ [f])" by simp
  from e show "r = (if concat (take (length (voiced_frames st @ [f]) - speech_end_frames self)
                          (voiced_frames st @ [f])) = [] then None
             else Some (concat (take (length (voiced_frames st @ [f]) - speech_end_frames self)
                          (voiced_frames st @ [f]))))" by simp
  fix rest :: "bytes list"
  assume "\<forall>c\<in>set rest. length c = frame_size self"
  with assms(3) have "\<forall>c\<in>set (frames @ f # rest). length c = frame_size self" by auto
  from detect_returned[OF assms(1) this assms(4) ret]
  show "detect_speech_segments self (frames @ f # rest) = Inr r" .
next
  from assms(3) have "\<forall>c\<in>set frames. length c = frame_size self" by simp
  from detect_stream_end[OF assms(1) this assms(4)]
  show "detect_speech_segments self frames =
       Inr (if triggered st \<and> voiced_frames st \<noteq> [] then Some (concat (voiced_frames st)) else None)" .
qed

text \<open>
  The theorem at the default detector. After nine loud frames the tenth starts the turn;
  after ten loud and nineteen silent frames the twentieth silent frame ends it, and the
  audio returned is the ten loud frames.
\<close>

theorem detect_turn_boundaries_witness:
  "process_frame demo_vad
      \<lparr> ring_buffer = replicate 9 (speech_frame, True), triggered = False, voiced_frames = [],
        speech_count = 9, silence_count = 0 \<rparr> speech_frame =
     Inr (Continue \<lparr> ring_buffer = [], triggered = True, voiced_frames = replicate 10 speech_frame,
                      speech_count = 0, silence_count = 0 \<rparr>) \<and>
   is_speech demo_vad speech_frame = Inr True \<and>
   process_frame demo_vad
      \<lparr> ring_buffer = replicate 19 (silence_frame, False), triggered = True,
        voiced_frames = replicate 10 speech_frame @ replicate 19 silence_frame,
        speech_count = 0, silence_count = 19 \<rparr> silence_frame =
     Inr (Return (Some (concat (replicate 10 speech_frame)))) \<and>
   detect_speech_segments demo_vad
      ((replicate 10 speech_frame @ replicate 19 silence_frame) @ silence_frame # [speech_frame]) =
     Inr (Some (concat (replicate 10 speech_frame))) \<and>
   detect_speech_segments demo_vad (replicate 10 speech_frame @ replicate 19 silence_frame) =
     Inr (Some (concat (replicate 10 speech_frame @ replicate 19 silence_frame)))"
proof -
  let ?st9 = "\<lparr> ring_buffer = replicate 9 (speech_frame, True), triggered = False,
                 voiced_frames = [], speech_count = 9, silence_count = 0 \<rparr>"
  let ?st10 = "\<lparr> ring_buffer = [], triggered = True, voiced_frames = replicate 10 speech_frame,
                  speech_count = 0, silence_count = 0 \<rparr>"
  let ?st29 = "\<lparr> ring_buffer = replicate 19 (silence_frame, False), triggered = True,
                  voiced_frames = replicate 10 speech_frame @ replicate 19 silence_frame,
                  speech_count = 0, silence_count = 19 \<rparr>"
  have fs: "0 < frame_size demo_vad" and ef: "0 < speech_end_frames demo_vad" by simp_all
  have l9: "\<forall>c\<in>set (replicate 9 speech_frame @ [speech_frame]). length c = frame_size demo_vad"
    by simp
  have r9: "run_frames demo_vad detect_init (replicate 9 speech_frame) = Inr (Continue ?st9)"
    by (simp add: replicate_num demo_step detect_init_def deque_append_def)
  have p10: "process_frame demo_vad ?st9 speech_frame = Inr (Continue ?st10)"
    by (simp add: replicate_num demo_step deque_append_def)
  have l29: "\<forall>c\<in>set ((replicate 10 speech_frame @ replicate 19 silence_frame) @ [silence_frame]).
               length c = frame_size demo_vad"
    by auto
  have r29: "run_frames demo_vad detect_init (replicate 10 speech_frame @ replicate 19 silence_frame) =
               Inr (Continue ?st29)"
    by (simp add: replicate_num demo_step detect_init_def deque_append_def)
  have p30: "process_frame demo_vad ?st29 silence_frame =
               Inr (Return (Some (concat (replicate 10 speech_frame))))"
    by (simp add: replicate_num demo_step slice_to_neg_def)
  note w1 = detect_turn_boundaries[OF fs ef l9 r9]
  note w2 = detect_turn_boundaries[OF fs ef l29 r29]
  from w1 p10 have "\<forall>x\<in>set (drop (length (replicate 9 speech_frame @ [speech_frame]) -
        speech_start_frames demo_vad) (replicate 9 speech_frame @ [speech_frame])).
        is_speech demo_vad x = Inr True"
    by simp
  then have a: "is_speech demo_vad speech_frame = Inr True"
    by simp
  from w2 p30 have b: "\<forall>rest. (\<forall>c\<in>set rest. length c = frame_size demo_vad) \<longrightarrow>
      detect_speech_segments demo_vad
        ((replicate 10 speech_frame @ replicate 19 silence_frame) @ silence_frame # rest) =
      Inr (Some (concat (replicate 10 speech_frame)))"
    by blast
  have c: "detect_speech_segments demo_vad
      ((replicate 10 speech_frame @ replicate 19 silence_frame) @ silence_frame # [speech_frame]) =
     Inr (Some (concat (replicate 10 speech_frame)))"
    using b by simp
  from w2 have d: "detect_speech_segments demo_vad (replicate 10 speech_frame @ replicate 19 silence_frame) =
     Inr (Some (concat (replicate 10 speech_frame @ replicate 19 silence_frame)))"
    by simp
  from p10 a p30 c d show ?thesis by blast
qed

text \<open>
  The claim as first stated fails on a stream that ends during a turn: after ten loud
  frames and nothing else, the detector returns all ten recorded frames. No silent frame
  was seen and none was removed.
\<close>

theorem detect_stream_end_untrimmed_counterexample:
  "detect_speech_segments demo_vad (replicate 10 speech_frame) =
     Inr (Some (concat (replicate 10 speech_frame)))"
  by (simp add: detect_speech_segments_def split_frames_single replicate_num demo_step
        detect_init_def deque_append_def)

subsection \<open>The frame size theorem on concrete input\<close>

text \<open>
  The theorem at the default detector: a two-byte chunk is padded to 960 bytes, and the
  frame that starts a turn is recorded as it was read.
\<close>

theorem is_speech_frame_size_witness:
  "length (normalize_chunk (frame_size demo_vad) [1, 2]) = 960 \<and>
   normalize_chunk (frame_size demo_vad) [1, 2] = [1, 2] @ replicate 958 0 \<and>
   process_frame demo_vad
      \<lparr> ring_buffer = replicate 9 (speech_frame, True), triggered = False, voiced_frames = [],
        speech_count = 9, silence_count = 0 \<rparr> speech_frame =
     Inr (Continue \<lparr> ring_buffer = [], triggered = True, voiced_frames = replicate 10 speech_frame,
                      speech_count = 0, silence_count = 0 \<rparr>) \<and>
   set (replicate 10 speech_frame) \<subseteq>
     set [] \<union> fst ` set (replicate 9 (speech_frame, True)) \<union> {speech_frame}"
proof -
  let ?st9 = "\<lparr> ring_buffer = replicate 9 (speech_frame, True), triggered = False,
                 voiced_frames = [], speech_count = 9, silence_count = 0 \<rparr>"
  let ?st10 = "\<lparr> ring_buffer = [], triggered = True, voiced_frames = replicate 10 speech_frame,
                  speech_count = 0, silence_count = 0 \<rparr>"
  have fs: "frame_size demo_vad = 960" by simp
  have p10: "process_frame demo_vad ?st9 speech_frame = Inr (Continue ?st10)"
    by (simp add: replicate_num demo_step deque_append_def)
  note w1 = is_speech_frame_size[of demo_vad "[1, 2]"]
  note w2 = is_speech_frame_size[of demo_vad speech_frame]
  from w1 have a: "length (normalize_chunk (frame_size demo_vad) [1, 2]) = 960"
    and b: "normalize_chunk (frame_size demo_vad) [1, 2] = [1, 2] @ replicate 958 0"
    by (simp_all add: fs)
  from w2 p10 have "set (voiced_frames ?st10) \<subseteq>
      set (voiced_frames ?st9) \<union> fst ` set (ring_buffer ?st9) \<union> {speech_frame}"
    by blast
  then have c: "set (replicate 10 speech_frame) \<subseteq>
     set [] \<union> fst ` set (replicate 9 (speech_frame, True)) \<union> {speech_frame}"
    by simp
  from a b p10 c show ?thesis by blast
qed


section \<open>The buffers of recent frames\<close>

lemma run_frames_ring_buffer_bound:
  assumes "\<forall>c\<in>set frames. frame_size self \<le> length c"
    and "run_frames self detect_init frames = Inr (Continue st)"
  shows "length (ring_buffer st) \<le> speech_end_frames self"
proof -
  from run_frames_inv[OF detect_inv_init assms] have "detect_inv self (rev frames) st" by simp
  then show ?thesis by (simp add: detect_inv_def)
qed

lemma wait_loop_bound:
  assumes "length pb \<le> pre_buffer_max"
    and "wait_loop dm v rs pb k = Some (started, out)"
  shows "length out \<le> pre_buffer_max"
  using assms
proof (induction rs arbitrary: pb k)
  case Nil
  then show ?case by (auto split: if_splits)
next
  case (Cons r rs)
  obtain chunk sp where rc: "read_and_check v r = (chunk, sp)"
    by (cases "read_and_check v r")
  define pb' where "pb' = (case chunk of
                          None \<Rightarrow> pb
                        | Some c \<Rightarrow>
                            if c \<noteq> [] then
                              (let pb1 = pb @ [c]
                               in if length pb1 > pre_buffer_max then tl pb1 else pb1)
                            else pb)"
  have len: "length pb' \<le> pre_buffer_max"
    using Cons.prems(1) by (auto simp: pb'_def Let_def split: option.splits)
  show ?case
  proof (cases "running dm \<and> \<not> is_speaking dm")
    case False
    with Cons.prems(2) show ?thesis by auto
  next
    case True
    with Cons.prems(2) rc
    have "(sp \<and> k + 1 \<ge> speech_threshold \<and> out = pb') \<or>
          wait_loop dm v rs pb' (k + 1) = Some (started, out) \<or>
          wait_loop dm v rs pb' 0 = Some (started, out)"
      by (auto simp: pb'_def Let_def split: if_splits)
    with len Cons.IH[OF len] show ?thesis by blast
  qed
qed

lemma demo_read_and_check:
  "read_and_check demo_vad (Inr speech_frame) = (Some speech_frame, True)"
  "read_and_check demo_vad (Inr silence_frame) = (Some silence_frame, False)"
  by (simp_all add: read_and_check_def chunk_slices_def is_speech_speech)

text \<open>
  Claim C6 (as amended). Two buffers keep recent audio while the engine waits for the
  onset of a turn. The pre-buffer of \<^verbatim>\<open>_wait_for_speech_start\<close>, which is copied to the
  front of the turn's audio by \<^verbatim>\<open>_realtime_recognize\<close>, holds at most 15 chunks. The
  ring buffer of \<^verbatim>\<open>detect_speech_segments\<close> holds at most \<open>speech_end_frames\<close> frames,
  which is 20 for a detector as constructed.
\<close>

theorem pre_roll_buffer_bounds:
  "(wait_for_speech_start dm v reads = Some (started, pre_buffer) \<longrightarrow>
      length pre_buffer \<le> 15 \<and> length (fst (preload_pre_buffer pre_buffer)) \<le> 15) \<and>
   ((\<forall>c\<in>set frames. frame_size self \<le> length c) \<and>
    run_frames self detect_init frames = Inr (Continue st) \<longrightarrow>
      length (ring_buffer st) \<le> speech_end_frames self) \<and>
   (VADDetector_init classifier rate = Inr self' \<longrightarrow> speech_end_frames self' = 20)"
proof (intro conjI impI)
  assume w: "wait_for_speech_start dm v reads = Some (started, pre_buffer)"
  have "length pre_buffer \<le> pre_buffer_max"
    by (rule wait_loop_bound[of "[]" dm v reads 0 started])
       (use w in \<open>simp_all add: wait_for_speech_start_def\<close>)
  then show "length pre_buffer \<le> 15" by (simp add: pre_buffer_max_def)
  then show "length (fst (preload_pre_buffer pre_buffer)) \<le> 15"
    by (simp add: preload_pre_buffer_def)
next
  assume "(\<forall>c\<in>set frames. frame_size self \<le> length c) \<and>
    run_frames self detect_init frames = Inr (Continue st)"
  then show "length (ring_buffer st) \<le> speech_end_frames self"
    using run_frames_ring_buffer_bound by blast
next
  assume "VADDetector_init classifier rate = Inr self'"
  then show "speech_end_frames self' = 20"
    by (auto simp: VADDetector_init_def split: if_splits)
qed

text \<open>
  The theorem on concrete inputs: seventeen silent chunks and three loud ones leave the
  last fifteen chunks in the pre-buffer; twenty silent frames fill the detector's ring
  buffer.
\<close>

theorem pre_roll_buffer_bounds_witness:
  "wait_for_speech_start (demo_dm True) demo_vad
      (replicate 17 (Inr silence_frame) @ replicate 3 (Inr speech_frame)) =
     Some (True, replicate 12 silence_frame @ replicate 3 speech_frame) \<and>
   length (replicate 12 silence_frame @ replicate 3 speech_frame) \<le> 15 \<and>
   length (fst (preload_pre_buffer (replicate 12 silence_frame @ replicate 3 speech_frame))) \<le> 15 \<and>
   run_frames demo_vad detect_init (replicate 20 silence_frame) =
     Inr (Continue \<lparr> ring_buffer = replicate 20 (silence_frame, False), triggered = False,
                      voiced_frames = [], speech_count = 0, silence_count = 20 \<rparr>) \<and>
   length (replicate 20 (silence_frame, False)) \<le> speech_end_frames demo_vad \<and>
   VADDetector_init energy_vad 16000 = Inr demo_vad \<and>
   speech_end_frames demo_vad = 20"
proof -
  let ?st20 = "\<lparr> ring_buffer = replicate 20 (silence_frame, False), triggered = False,
                  voiced_frames = [], speech_count = 0, silence_count = 20 \<rparr>"
  let ?pb = "replicate 12 silence_frame @ replicate 3 speech_frame"
  have w: "wait_for_speech_start (demo_dm True) demo_vad
      (replicate 17 (Inr silence_frame) @ replicate 3 (Inr speech_frame)) = Some (True, ?pb)"
    by (simp add: wait_for_speech_start_def replicate_num demo_read_and_check demo_dm_def
          pre_buffer_max_def speech_threshold_def Let_def)
  have l: "\<forall>c\<in>set (replicate 20 silence_frame). frame_size demo_vad \<le> length c" by simp
  have r: "run_frames demo_vad detect_init (replicate 20 silence_frame) = Inr (Continue ?st20)"
    by (simp add: replicate_num demo_step detect_init_def deque_append_def)
  have i: "VADDetector_init energy_vad 16000 = Inr demo_vad"
    by (simp add: VADDetector_init_def demo_vad_def)
  note t = pre_roll_buffer_bounds[of "demo_dm True" demo_vad
      "replicate 17 (Inr silence_frame) @ replicate 3 (Inr speech_frame)" True ?pb
      "replicate 20 silence_frame" demo_vad ?st20 energy_vad 16000 demo_vad]
  from t w have a: "length ?pb \<le> 15" and b: "length (fst (preload_pre_buffer ?pb)) \<le> 15"
    by blast+
  from t l r have c: "length (ring_buffer ?st20) \<le> speech_end_frames demo_vad" by blast
  then have c': "length (replicate 20 (silence_frame, False)) \<le> speech_end_frames demo_vad"
    by simp
  from t i have d: "speech_end_frames demo_vad = 20" by blast
  from w a b r c' i d show ?thesis by blast
qed

text \<open>
  The claim as first stated fails for the detector's ring buffer: under the default
  configuration it holds twenty frames, and when ten silent frames are followed by ten
  loud ones, all twenty are put in front of the turn's audio.
\<close>

theorem ring_buffer_holds_twenty_counterexample:
  "VADDetector_init energy_vad 16000 = Inr demo_vad \<and>
   run_frames demo_vad detect_init (replicate 20 silence_frame) =
     Inr (Continue \<lparr> ring_buffer = replicate 20 (silence_frame, False), triggered = False,
                      voiced_frames = [], speech_count = 0, silence_count = 20 \<rparr>) \<and>
   \<not> length (replicate 20 (silence_frame, False)) \<le> (15 :: nat) \<and>
   run_frames demo_vad detect_init (replicate 10 silence_frame @ replicate 10 speech_frame) =
     Inr (Continue \<lparr> ring_buffer = [], triggered = True,
                      voiced_frames = replicate 10 silence_frame @ replicate 10 speech_frame,
                      speech_count = 0, silence_count = 0 \<rparr>) \<and>
   \<not> length (replicate 10 silence_frame @ replicate 10 speech_frame) \<le> (15 :: nat)"
proof -
  have i: "VADDetector_init energy_vad 16000 = Inr demo_vad"
    by (simp add: VADDetector_init_def demo_vad_def)
  have r: "run_frames demo_vad detect_init (replicate 20 silence_frame) =
     Inr (Continue \<lparr> ring_buffer = replicate 20 (silence_frame, False), triggered = False,
                      voiced_frames = [], speech_count = 0, silence_count = 20 \<rparr>)"
    by (simp add: replicate_num demo_step detect_init_def deque_append_def)
  have t: "run_frames demo_vad detect_init (replicate 10 silence_frame @ replicate 10 speech_frame) =
     Inr (Continue \<lparr> ring_buffer = [], triggered = True,
                      voiced_frames = replicate 10 silence_frame @ replicate 10 speech_frame,
                      speech_count = 0, silence_count = 0 \<rparr>)"
    by (simp add: replicate_num demo_step detect_init_def deque_append_def)
  from i r t show ?thesis by simp
qed

section \<open>EcEchoCanceller.read\_capture\<close>

lemma capture_loop_bound:
  assumes "capture_loop min_bytes evs chunks total_read = Some (Inr bs, rest)"
    and "total_read = int (length (concat chunks))" and "total_read \<le> min_bytes"
  shows "int (length bs) \<le> min_bytes"
  using assms
proof (induction evs arbitrary: chunks total_read)
  case Nil
  then show ?case by (auto split: if_splits)
next
  case (Cons ev evs)
  show ?case
  proof (cases "total_read < min_bytes")
    case False
    with Cons.prems show ?thesis by auto
  next
    case lt: True
    show ?thesis
    proof (cases ev)
      case TimedOut
      with lt Cons.prems show ?thesis by auto
    next
      case (Read outcome)
      show ?thesis
      proof (cases outcome)
        case (Available avail)
        let ?data = "take (nat (min_bytes - total_read)) avail"
        show ?thesis
        proof (cases "?data = []")
          case True
          with lt Read Available Cons.prems(1)
          have "capture_loop min_bytes evs chunks total_read = Some (Inr bs, rest)"
            by (simp add: os_read_def)
          from Cons.IH[OF this Cons.prems(2,3)] show ?thesis .
        next
          case False
          with lt Read Available Cons.prems(1)
          have r: "capture_loop min_bytes evs (chunks @ [?data]) (total_read + int (length ?data)) =
                     Some (Inr bs, rest)"
            by (simp add: os_read_def)
          have a: "total_read + int (length ?data) = int (length (concat (chunks @ [?data])))"
            using Cons.prems(2) by simp
          have b: "total_read + int (length ?data) \<le> min_bytes"
            using lt by simp
          from Cons.IH[OF r a b] show ?thesis .
        qed
      next
        case EAGAIN
        with lt Read Cons.prems(1)
        have "capture_loop min_bytes evs chunks total_read = Some (Inr bs, rest)"
          by (simp add: os_read_def)
        from Cons.IH[OF this Cons.prems(2,3)] show ?thesis .
      next
        case EOther
        with lt Read Cons.prems(1) show ?thesis by (simp add: os_read_def)
      qed
    qed
  qed
qed

lemma capture_loop_returns:
  assumes "Read EOther \<notin> set evs" and "TimedOut \<in> set evs"
  shows "\<exists>bs rest. capture_loop min_bytes evs chunks total_read = Some (Inr bs, rest)"
  using assms
proof (induction evs arbitrary: chunks total_read)
  case Nil
  then show ?case by simp
next
  case (Cons ev evs)
  show ?case
  proof (cases "total_read < min_bytes")
    case False
    then show ?thesis by simp
  next
    case lt: True
    show ?thesis
    proof (cases ev)
      case TimedOut
      with lt show ?thesis by simp
    next
      case (Read outcome)
      with Cons.prems have ih: "\<exists>bs rest. capture_loop min_bytes evs c t = Some (Inr bs, rest)" for c t
        by (intro Cons.IH) auto
      from Read Cons.prems(1) have "outcome \<noteq> EOther" by auto
      with lt Read ih show ?thesis
        by (cases outcome) (auto simp: os_read_def)
    qed
  qed
qed

text \<open>
  Claim C10. For \<open>min_bytes \<ge> 0\<close>, whatever the pipe and the clock do, a byte string
  returned by \<^verbatim>\<open>read_capture\<close> has at most \<open>min_bytes\<close> bytes. A disabled canceller
  returns the empty byte string at once and consumes no event of the pipe. A started
  canceller returns a byte string whenever the pipe raises nothing but \<^verbatim>\<open>EAGAIN\<close> and the
  clock test fails at some point.
\<close>

theorem read_capture_bounded:
  "(0 \<le> min_bytes \<and> read_capture self min_bytes evs = Some (Inr bs, rest) \<longrightarrow>
      int (length bs) \<le> min_bytes) \<and>
   (\<not> enabled self \<longrightarrow> read_capture self min_bytes evs = Some (Inr [], evs)) \<and>
   (enabled self \<and> capture_fd self \<noteq> None \<and> Read EOther \<notin> set evs \<and> TimedOut \<in> set evs \<longrightarrow>
      (\<exists>bs' rest'. read_capture self min_bytes evs = Some (Inr bs', rest')))"
proof (intro conjI impI)
  assume a: "0 \<le> min_bytes \<and> read_capture self min_bytes evs = Some (Inr bs, rest)"
  show "int (length bs) \<le> min_bytes"
  proof (cases "enabled self \<and> capture_fd self \<noteq> None")
    case True
    with a have "capture_loop min_bytes evs [] 0 = Some (Inr bs, rest)"
      by (auto simp: read_capture_def)
    from capture_loop_bound[OF this] a show ?thesis by simp
  next
    case False
    with a show ?thesis by (auto simp: read_capture_def split: if_splits)
  qed
next
  assume "\<not> enabled self"
  then show "read_capture self min_bytes evs = Some (Inr [], evs)"
    by (simp add: read_capture_def)
next
  assume a: "enabled self \<and> capture_fd self \<noteq> None \<and> Read EOther \<notin> set evs \<and> TimedOut \<in> set evs"
  then have "\<exists>bs rest. capture_loop min_bytes evs [] 0 = Some (Inr bs, rest)"
    by (intro capture_loop_returns) simp_all
  with a show "\<exists>bs' rest'. read_capture self min_bytes evs = Some (Inr bs', rest')"
    by (auto simp: read_capture_def)
qed

text \<open>
  The theorem on concrete inputs: five bytes are wanted, the pipe offers three, then
  nothing, then four of which two are taken; a disabled canceller leaves the events alone.
\<close>

theorem read_capture_bounded_witness:
  "read_capture \<lparr> enabled = True, capture_fd = Some 4 \<rparr> 5
      [Read (Available [1, 2, 3]), Read EAGAIN, Read (Available [4, 5, 6, 7]), TimedOut] =
     Some (Inr [1, 2, 3, 4, 5], [TimedOut]) \<and>
   int (length [1, 2, 3, 4, 5 :: byte]) \<le> 5 \<and>
   read_capture \<lparr> enabled = False, capture_fd = Some 4 \<rparr> 5 [Read (Available [1, 2, 3])] =
     Some (Inr [], [Read (Available [1, 2, 3])]) \<and>
   read_capture \<lparr> enabled = True, capture_fd = Some 4 \<rparr> 5 [Read (Available [1]), TimedOut] =
     Some (Inr [1], [])"
proof -
  let ?on = "\<lparr> enabled = True, capture_fd = Some 4 \<rparr>"
  let ?off = "\<lparr> enabled = False, capture_fd = Some 4 \<rparr>"
  let ?evs = "[Read (Available [1, 2, 3]), Read EAGAIN, Read (Available [4, 5, 6, 7]), TimedOut]"
  have r: "read_capture ?on 5 ?evs = Some (Inr [1, 2, 3, 4, 5], [TimedOut])"
    by (simp add: read_capture_def os_read_def)
  have r2: "read_capture ?on 5 [Read (Available [1]), TimedOut] = Some (Inr [1], [])"
    by (simp add: read_capture_def os_read_def)
  from read_capture_bounded[of 5 ?on ?evs "[1, 2, 3, 4, 5]" "[TimedOut]"] r
  have a: "int (length [1, 2, 3, 4, 5 :: byte]) \<le> 5" by simp
  from read_capture_bounded[of 5 ?off "[Read (Available [1, 2, 3])]"]
  have b: "read_capture ?off 5 [Read (Available [1, 2, 3])] =
     Some (Inr [], [Read (Available [1, 2, 3])])" by simp
  from r a b r2 show ?thesis by blast
qed

section \<open>The receive loop of synthesize\_stream\<close>

lemma receive_loop_append:
  "receive_loop loads (pre @ evs) =
     (case snd (receive_loop loads pre) of
        None \<Rightarrow> (fst (receive_loop loads pre) @ fst (receive_loop loads evs),
                  snd (receive_loop loads evs))
      | Some left \<Rightarrow> (fst (receive_loop loads pre), Some (left @ evs)))"
proof (induction pre)
  case Nil
  then show ?case by simp
next
  case (Cons ev pre)
  show ?case
  proof (cases ev)
    case (Frame response)
    with Cons show ?thesis
      by (cases "handle_response loads response")
         (auto split: option.splits)
  qed simp_all
qed

lemma handle_response_break:
  "handle_response loads response = Break \<longleftrightarrow>
     4 \<le> length response \<and>
     (msg_type_of response = 0xF \<or>
      msg_type_of response = 0x9 \<and> event_of response = 152 \<and>
      12 + session_id_len_of response + 4 \<le> length response \<and>
      loads (payload_of response) \<noteq> None)"
  by (auto simp: handle_response_def MSG_AUDIO_RESPONSE_def MSG_ERROR_RESPONSE_def Let_def
           split: option.splits)

lemma handle_response_skip:
  assumes "length response < 4 \<or>
     msg_type_of response = 0x9 \<and>
     (length response < 12 + session_id_len_of response + 4 \<or>
      loads (payload_of response) = None)"
  shows "handle_response loads response = Skip"
  using assms
  by (auto simp: handle_response_def MSG_AUDIO_RESPONSE_def MSG_ERROR_RESPONSE_def Let_def
           split: option.splits)

lemma receive_loop_skip:
  assumes "handle_response loads response = Skip" "snd (receive_loop loads before) = None"
  shows "receive_loop loads (before @ Frame response # pending) =
     (fst (receive_loop loads before) @ fst (receive_loop loads pending),
      snd (receive_loop loads pending))"
  using assms by (simp add: receive_loop_append)

text \<open>
  Claim C2 (as amended). A frame of message type \<^verbatim>\<open>0x9\<close> with event 152 that carries its
  session-id length and payload length fields and whose payload parses as JSON ends the
  stream: the loop breaks, the chunks yielded are those of the frames before it, and the
  events still pending are not read. A frame shorter than four bytes, and a frame of type
  \<^verbatim>\<open>0x9\<close> that is too short for these fields or whose payload does not parse, is skipped
  whatever its event: the loop goes on with the pending events. An audio frame (\<^verbatim>\<open>0xB\<close>)
  never ends the stream, whatever its flags; a frame with event 351 never does; and a
  frame that ends the stream is an error frame (\<^verbatim>\<open>0xF\<close>) or a \<^verbatim>\<open>0x9\<close> frame with event 152.
\<close>

theorem session_finished_terminates:
  "(4 \<le> length response \<and> msg_type_of response = 0x9 \<and> event_of response = 152 \<and>
    12 + session_id_len_of response + 4 \<le> length response \<and>
    loads (payload_of response) \<noteq> None \<and> snd (receive_loop loads before) = None \<longrightarrow>
      handle_response loads response = Break \<and>
      receive_loop loads (before @ Frame response # pending) =
        (fst (receive_loop loads before), Some pending)) \<and>
   ((length response < 4 \<or>
     msg_type_of response = 0x9 \<and>
     (length response < 12 + session_id_len_of response + 4 \<or>
      loads (payload_of response) = None)) \<and>
    snd (receive_loop loads before) = None \<longrightarrow>
      handle_response loads response = Skip \<and>
      receive_loop loads (before @ Frame response # pending) =
        (fst (receive_loop loads before) @ fst (receive_loop loads pending),
         snd (receive_loop loads pending))) \<and>
   (msg_type_of response = 0xB \<longrightarrow> handle_response loads response \<noteq> Break) \<and>
   (msg_type_of response = 0x9 \<and> event_of response = 351 \<longrightarrow>
      handle_response loads response \<noteq> Break) \<and>
   (handle_response loads response = Break \<longrightarrow>
      msg_type_of response = 0xF \<or> msg_type_of response = 0x9 \<and> event_of response = 152)"
proof (intro conjI impI)
  assume a: "4 \<le> length response \<and> msg_type_of response = 0x9 \<and> event_of response = 152 \<and>
    12 + session_id_len_of response + 4 \<le> length response \<and>
    loads (payload_of response) \<noteq> None \<and> snd (receive_loop loads before) = None"
  then show b: "handle_response loads response = Break"
    by (simp add: handle_response_break)
  from a b show "receive_loop loads (before @ Frame response # pending) =
        (fst (receive_loop loads before), Some pending)"
    by (simp add: receive_loop_append)
next
  assume a: "(length response < 4 \<or>
     msg_type_of response = 0x9 \<and>
     (length response < 12 + session_id_len_of response + 4 \<or>
      loads (payload_of response) = None)) \<and>
    snd (receive_loop loads before) = None"
  show b: "handle_response loads response = Skip"
    using a[THEN conjunct1] by (rule handle_response_skip[of response loads])
  from a have "snd (receive_loop loads before) = None" by blast
  from receive_loop_skip[OF b this]
  show "receive_loop loads (before @ Frame response # pending) =
        (fst (receive_loop loads before) @ fst (receive_loop loads pending),
         snd (receive_loop loads pending))" .
next
  assume "msg_type_of response = 0xB"
  then show "handle_response loads response \<noteq> Break"
    by (simp add: handle_response_break)
next
  assume "msg_type_of response = 0x9 \<and> event_of response = 351"
  then show "handle_response loads response \<noteq> Break"
    by (simp add: handle_response_break)
next
  assume "handle_response loads response = Break"
  then show "msg_type_of response = 0xF \<or> msg_type_of response = 0x9 \<and> event_of response = 152"
    by (auto simp: handle_response_break)
qed

lemma demo_frames_fields:
  "msg_type_of finished_frame = 0x9" "event_of finished_frame = 152"
  "session_id_len_of finished_frame = 0" "payload_of finished_frame = [0x7B, 0x7D]"
  "msg_type_of finished_frame_unparsed = 0x9" "event_of finished_frame_unparsed = 152"
  "session_id_len_of finished_frame_unparsed = 0"
  "payload_of finished_frame_unparsed = [0x6F, 0x6B]"
  "msg_type_of finished_frame_empty = 0x9" "event_of finished_frame_empty = 152"
  "session_id_len_of finished_frame_empty = 0" "payload_of finished_frame_empty = []"
  "msg_type_of finished_frame_cut = 0x9" "event_of finished_frame_cut = 152"
  "session_id_len_of finished_frame_cut = 0"
  "msg_type_of sentence_end_frame = 0x9" "event_of sentence_end_frame = 351"
  "session_id_len_of sentence_end_frame = 0" "payload_of sentence_end_frame = [0x7B, 0x7D]"
  "msg_type_of audio_frame = 0xB" "msg_flags_of audio_frame = 0x3"
  "session_id_len_of audio_frame = 0" "payload_of audio_frame = [0xAA, 0xBB]"
  by (simp_all add: msg_type_of_def msg_flags_of_def event_of_def session_id_len_of_def
        payload_of_def py_slice_def from_bytes_big_def finished_frame_def
        finished_frame_unparsed_def finished_frame_empty_def finished_frame_cut_def
        sentence_end_frame_def audio_frame_def)

lemma demo_frames_length:
  "length finished_frame = 18" "length finished_frame_unparsed = 18"
  "length finished_frame_empty = 16" "length finished_frame_cut = 10"
  "length sentence_end_frame = 18" "length audio_frame = 18"
  by (simp_all add: finished_frame_def finished_frame_unparsed_def finished_frame_empty_def
        finished_frame_cut_def sentence_end_frame_def audio_frame_def)

lemma demo_audio_only: "receive_loop loads_sample [Frame audio_frame] = ([[0xAA, 0xBB]], None)"
  by (simp add: handle_response_def demo_frames_fields demo_frames_length
        MSG_AUDIO_RESPONSE_def MSG_ERROR_RESPONSE_def)

text \<open>
  The theorem on concrete frames. After an audio frame, the SessionFinished frame with
  the payload \<^verbatim>\<open>{}\<close> ends the stream and leaves the next audio frame unread. The
  SessionFinished frame with an empty payload and the one cut after ten bytes are
  skipped, and the audio frame that follows is read and yielded. The audio frame, with
  its flags set, and the frame with event 351 do not end the stream.
\<close>

theorem session_finished_terminates_witness:
  "receive_loop loads_sample ([Frame audio_frame] @ Frame finished_frame # [Frame audio_frame]) =
     ([[0xAA, 0xBB]], Some [Frame audio_frame]) \<and>
   handle_response loads_sample finished_frame = Break \<and>
   handle_response loads_sample finished_frame_empty = Skip \<and>
   receive_loop loads_sample
      ([Frame audio_frame] @ Frame finished_frame_empty # [Frame audio_frame]) =
     ([[0xAA, 0xBB], [0xAA, 0xBB]], None) \<and>
   handle_response loads_sample finished_frame_cut = Skip \<and>
   handle_response loads_sample audio_frame \<noteq> Break \<and>
   handle_response loads_sample sentence_end_frame \<noteq> Break"
proof -
  note pre = demo_audio_only
  have h: "4 \<le> length finished_frame \<and> msg_type_of finished_frame = 0x9 \<and>
      event_of finished_frame = 152 \<and>
      12 + session_id_len_of finished_frame + 4 \<le> length finished_frame \<and>
      loads_sample (payload_of finished_frame) \<noteq> None \<and>
      snd (receive_loop loads_sample [Frame audio_frame]) = None"
    by (simp add: pre demo_frames_fields demo_frames_length loads_sample_def
          del: receive_loop.simps)
  note t = session_finished_terminates[of finished_frame loads_sample "[Frame audio_frame]"
      "[Frame audio_frame]"]
  from t h have a: "handle_response loads_sample finished_frame = Break"
    and b: "receive_loop loads_sample ([Frame audio_frame] @ Frame finished_frame # [Frame audio_frame]) =
        (fst (receive_loop loads_sample [Frame audio_frame]), Some [Frame audio_frame])"
    by blast+
  have he: "(length finished_frame_empty < 4 \<or>
      msg_type_of finished_frame_empty = 0x9 \<and>
      (length finished_frame_empty < 12 + session_id_len_of finished_frame_empty + 4 \<or>
       loads_sample (payload_of finished_frame_empty) = None)) \<and>
      snd (receive_loop loads_sample [Frame audio_frame]) = None"
    by (simp add: pre demo_frames_fields demo_frames_length loads_sample_def
          del: receive_loop.simps)
  note te = session_finished_terminates[of finished_frame_empty loads_sample
      "[Frame audio_frame]" "[Frame audio_frame]"]
  from te he have c: "handle_response loads_sample finished_frame_empty = Skip"
    and d: "receive_loop loads_sample
        ([Frame audio_frame] @ Frame finished_frame_empty # [Frame audio_frame]) =
        (fst (receive_loop loads_sample [Frame audio_frame]) @
           fst (receive_loop loads_sample [Frame audio_frame]),
         snd (receive_loop loads_sample [Frame audio_frame]))"
    by blast+
  have hc: "(length finished_frame_cut < 4 \<or>
      msg_type_of finished_frame_cut = 0x9 \<and>
      (length finished_frame_cut < 12 + session_id_len_of finished_frame_cut + 4 \<or>
       loads_sample (payload_of finished_frame_cut) = None)) \<and>
      snd (receive_loop loads_sample []) = None"
    by (simp add: demo_frames_fields demo_frames_length)
  from session_finished_terminates[of finished_frame_cut loads_sample "[]"] hc
  have e: "handle_response loads_sample finished_frame_cut = Skip"
    by blast
  from session_finished_terminates[of audio_frame loads_sample]
  have f: "handle_response loads_sample audio_frame \<noteq> Break"
    by (simp add: demo_frames_fields)
  from session_finished_terminates[of sentence_end_frame loads_sample]
  have g: "handle_response loads_sample sentence_end_frame \<noteq> Break"
    by (simp add: demo_frames_fields)
  from b have b': "receive_loop loads_sample
      ([Frame audio_frame] @ Frame finished_frame # [Frame audio_frame]) =
     ([[0xAA, 0xBB]], Some [Frame audio_frame])"
    by (simp only: pre fst_conv)
  from d have d': "receive_loop loads_sample
      ([Frame audio_frame] @ Frame finished_frame_empty # [Frame audio_frame]) =
     ([[0xAA, 0xBB], [0xAA, 0xBB]], None)"
    by (simp only: pre fst_conv snd_conv append.simps)
  from a b' c d' e f g show ?thesis by blast
qed

text \<open>
  The claim as first stated fails on a SessionFinished frame whose payload does not parse
  as JSON: the frame of type \<^verbatim>\<open>0x9\<close> with event 152 and the payload \<^verbatim>\<open>ok\<close> does not end the
  stream. It is skipped, and the loop goes on to yield the audio of the next frame.
\<close>

theorem session_finished_unparsed_counterexample:
  "msg_type_of finished_frame_unparsed = 0x9 \<and> event_of finished_frame_unparsed = 152 \<and>
   handle_response loads_sample finished_frame_unparsed = Skip \<and>
   receive_loop loads_sample [Frame finished_frame_unparsed, Frame audio_frame, RecvTimeout] =
     ([[0xAA, 0xBB]], Some [])"
  by (simp add: handle_response_def demo_frames_fields demo_frames_length loads_sample_def
        MSG_AUDIO_RESPONSE_def MSG_ERROR_RESPONSE_def)

section \<open>Barge-in during playback\<close>

lemma vote_frames_count:
  "vote_frames v fs (a, b) =
     Inr (a + length (filter (speech v) (filter (\<lambda>f. frame_size v \<le> length f) fs)),
          b + length (filter (\<lambda>f. frame_size v \<le> length f) fs))"
  by (induction fs arbitrary: a b) (simp_all add: is_speech_speech)

lemma chunk_slices_Nil: "chunk_slices fsz [] = []"
  by (cases "fsz = 0") (simp_all add: chunk_slices_def)

lemma vote_chunk_count:
  "vote_chunk v r (a, b) =
     Inr (a + length (filter (speech v) (capture_frames v r)), b + length (capture_frames v r))"
  by (cases r) (simp_all add: vote_chunk_def capture_frames_def vote_frames_count Let_def
        chunk_slices_Nil is_speech_speech)

lemma barge_in_check_votes:
  assumes "has_audio_stream dm"
  shows "barge_in_check dm v reads k =
     (Inr (barge_in_vote v (sampled_frames v reads k)), k + 2)"
proof -
  let ?n = "length (sampled_frames v reads k)"
  let ?m = "length (filter (speech v) (sampled_frames v reads k))"
  have "(0.6 \<le> real ?m / real ?n) = (6 * ?n \<le> 10 * ?m)" if "?n \<noteq> 0"
  proof -
    from that have "(0.6 \<le> real ?m / real ?n) = (real (6 * ?n) \<le> real (10 * ?m))"
      by (simp add: field_simps)
    also have "\<dots> = (6 * ?n \<le> 10 * ?m)" by (simp only: of_nat_le_iff)
    finally show ?thesis .
  qed
  then show ?thesis
    using assms
    by (auto simp: barge_in_check_def vote_chunk_count sampled_frames_def barge_in_vote_def)
qed

lemma speak_loop_inactive:
  assumes "\<not> (interruptible \<and> aec_enabled dm \<and> has_audio_stream dm)"
  shows "speak_loop dm v reads interruptible chunks buffer k acc =
     \<lparr> played = acc @ map fst (buffered_writes chunks buffer) @
                 (if leftover chunks buffer \<noteq> [] then [leftover chunks buffer] else []),
       unconsumed = [], reads_used = k, interrupted = False \<rparr>"
proof -
  from assms have c: "(interruptible \<and> aec_enabled dm \<and> has_audio_stream dm) = False"
    by simp
  show ?thesis
  proof (induction chunks arbitrary: buffer acc)
    case Nil
    show ?case by simp
  next
    case (Cons chunk rest)
    show ?case
    proof (cases "buffer_threshold \<le> length (buffer @ chunk)")
      case True
      with Cons.IH[of "[]" "acc @ [buffer @ chunk]"] show ?thesis
        by (simp add: c)
    next
      case False
      with Cons.IH[of "buffer @ chunk" acc] show ?thesis
        by simp
    qed
  qed
qed

lemma speak_loop_quiet:
  assumes "aec_enabled dm" "has_audio_stream dm"
    and "\<forall>i<length (buffered_writes chunks buffer).
           \<not> barge_in_vote v (sampled_frames v reads (k + 2 * i))"
  shows "speak_loop dm v reads True chunks buffer k acc =
     \<lparr> played = acc @ map fst (buffered_writes chunks buffer) @
                 (if leftover chunks buffer \<noteq> [] then [leftover chunks buffer] else []),
       unconsumed = [], reads_used = k + 2 * length (buffered_writes chunks buffer),
       interrupted = False \<rparr>"
  using assms
proof (induction chunks arbitrary: buffer k acc)
  case Nil
  show ?case by simp
next
  case (Cons chunk rest)
  show ?case
  proof (cases "buffer_threshold \<le> length (buffer @ chunk)")
    case True
    then have ws: "buffered_writes (chunk # rest) buffer =
        (buffer @ chunk, rest) # buffered_writes rest []"
      by simp
    have "\<not> barge_in_vote v (sampled_frames v reads (k + 2 * 0))"
      using Cons.prems(3)[unfolded ws, rule_format, of 0] by simp
    then have c: "barge_in_check dm v reads k = (Inr False, k + 2)"
      using barge_in_check_votes[OF Cons.prems(2), of v reads k] by simp
    have qs: "\<forall>i<length (buffered_writes rest []).
           \<not> barge_in_vote v (sampled_frames v reads (k + 2 + 2 * i))"
    proof (intro allI impI)
      fix i assume "i < length (buffered_writes rest [])"
      then have "Suc i < length (buffered_writes (chunk # rest) buffer)"
        unfolding ws by simp
      with Cons.prems(3) have "\<not> barge_in_vote v (sampled_frames v reads (k + 2 * Suc i))"
        by blast
      then show "\<not> barge_in_vote v (sampled_frames v reads (k + 2 + 2 * i))"
        by (simp add: ac_simps)
    qed
    note ih = Cons.IH[OF Cons.prems(1,2) qs, of "acc @ [buffer @ chunk]"]
    from True Cons.prems(1,2) c ih show ?thesis by simp
  next
    case False
    then have ws: "buffered_writes (chunk # rest) buffer = buffered_writes rest (buffer @ chunk)"
      by simp
    from Cons.prems(3) have qs: "\<forall>i<length (buffered_writes rest (buffer @ chunk)).
           \<not> barge_in_vote v (sampled_frames v reads (k + 2 * i))"
      unfolding ws .
    note ih = Cons.IH[OF Cons.prems(1,2) qs, of acc]
    from False ih show ?thesis by simp
  qed
qed

lemma speak_loop_barge_in:
  assumes "aec_enabled dm" "has_audio_stream dm"
    and "j < length (buffered_writes chunks buffer)"
    and "barge_in_vote v (sampled_frames v reads (k + 2 * j))"
    and "\<forall>i<j. \<not> barge_in_vote v (sampled_frames v reads (k + 2 * i))"
  shows "speak_loop dm v reads True chunks buffer k acc =
     \<lparr> played = acc @ map fst (take (Suc j) (buffered_writes chunks buffer)),
       unconsumed = snd (buffered_writes chunks buffer ! j),
       reads_used = k + 2 * Suc j, interrupted = True \<rparr>"
  using assms
proof (induction chunks arbitrary: buffer k acc j)
  case Nil
  then show ?case by simp
next
  case (Cons chunk rest)
  show ?case
  proof (cases "buffer_threshold \<le> length (buffer @ chunk)")
    case True
    then have ws: "buffered_writes (chunk # rest) buffer =
        (buffer @ chunk, rest) # buffered_writes rest []"
      by simp
    show ?thesis
    proof (cases j)
      case 0
      with Cons.prems(4) have "barge_in_vote v (sampled_frames v reads k)" by simp
      then have c: "barge_in_check dm v reads k = (Inr True, k + 2)"
        using barge_in_check_votes[OF Cons.prems(2), of v reads k] by simp
      from True Cons.prems(1,2) c 0 show ?thesis by simp
    next
      case (Suc j')
      with Cons.prems(5) have "\<not> barge_in_vote v (sampled_frames v reads (k + 2 * 0))"
        by blast
      then have c: "barge_in_check dm v reads k = (Inr False, k + 2)"
        using barge_in_check_votes[OF Cons.prems(2), of v reads k] by simp
      from Cons.prems(3) Suc have j': "j' < length (buffered_writes rest [])"
        unfolding ws by simp
      from Cons.prems(4) Suc
      have vj: "barge_in_vote v (sampled_frames v reads (k + 2 + 2 * j'))"
        by (simp add: ac_simps)
      have qs: "\<forall>i<j'. \<not> barge_in_vote v (sampled_frames v reads (k + 2 + 2 * i))"
      proof (intro allI impI)
        fix i assume "i < j'"
        then have "Suc i < j" using Suc by simp
        with Cons.prems(5) have "\<not> barge_in_vote v (sampled_frames v reads (k + 2 * Suc i))"
          by blast
        then show "\<not> barge_in_vote v (sampled_frames v reads (k + 2 + 2 * i))"
          by (simp add: ac_simps)
      qed
      note ih = Cons.IH[OF Cons.prems(1,2) j' vj qs, of "acc @ [buffer @ chunk]"]
      from True Cons.prems(1,2) c ih Suc show ?thesis by simp
    qed
  next
    case False
    then have ws: "buffered_writes (chunk # rest) buffer = buffered_writes rest (buffer @ chunk)"
      by simp
    from Cons.prems(3) have j: "j < length (buffered_writes rest (buffer @ chunk))"
      unfolding ws .
    note ih = Cons.IH[OF Cons.prems(1,2) j Cons.prems(4,5), of acc]
    from False ih show ?thesis by simp
  qed
qed

lemma speak_loop_nothing_lost:
  "concat (played (speak_loop dm v reads interruptible chunks buffer k acc)) @
   concat (unconsumed (speak_loop dm v reads interruptible chunks buffer k acc)) =
     concat acc @ buffer @ concat chunks"
proof (induction chunks arbitrary: buffer k acc)
  case Nil
  show ?case by simp
next
  case (Cons chunk rest)
  show ?case
  proof (cases "buffer_threshold \<le> length (buffer @ chunk)")
    case False
    with Cons.IH[of "buffer @ chunk" k acc] show ?thesis
      by simp
  next
    case True
    note th = True
    show ?thesis
    proof (cases "interruptible \<and> aec_enabled dm \<and> has_audio_stream dm")
      case False
      then have c: "(interruptible \<and> aec_enabled dm \<and> has_audio_stream dm) = False"
        by simp
      from th Cons.IH[of "[]" k "acc @ [buffer @ chunk]"] show ?thesis
        by (simp add: c)
    next
      case True
      then have c: "(interruptible \<and> aec_enabled dm \<and> has_audio_stream dm) = True"
        by simp
      obtain r k' where b: "barge_in_check dm v reads k = (r, k')"
        by (cases "barge_in_check dm v reads k") blast
      show ?thesis
      proof (cases r)
        case (Inl e)
        with th b show ?thesis by (simp add: c)
      next
        case (Inr barge_in)
        with th b Cons.IH[of "[]" k' "acc @ [buffer @ chunk]"] show ?thesis
          by (simp add: c)
      qed
    qed
  qed
qed

text \<open>
  Claim C5. A barge-in check samples the frames of two capture reads and answers True
  exactly when there is a sampled frame and at least 60 percent of the sampled frames are
  classified as speech. In an interruptible playback with the bridge enabled, every
  buffered write is followed by one check, on the next two reads, and no other read is
  made. The playback is aborted at the first check that answers True: what was played is
  the buffered writes up to that one, the chunks after it are not consumed, and nothing
  follows. When no check answers True the whole stream is consumed, and what is left in
  the buffer is played at the end. When the playback is not interruptible or the bridge
  is disabled, no read is made and the whole stream is played. In every case the bytes
  played and the chunks not consumed make up the stream, and the playback ends with
  \<open>is_speaking\<close> cleared.
\<close>

theorem barge_in_aborts_playback:
  "(has_audio_stream dm \<longrightarrow>
      barge_in_check dm v reads k =
        (Inr (barge_in_vote v (sampled_frames v reads k)), k + 2)) \<and>
   (interruptible \<and> aec_enabled dm \<and> has_audio_stream dm \<and>
    j < length (buffered_writes chunks []) \<and>
    barge_in_vote v (sampled_frames v reads (2 * j)) \<and>
    (\<forall>i<j. \<not> barge_in_vote v (sampled_frames v reads (2 * i))) \<longrightarrow>
      snd (speak dm v reads interruptible chunks) =
        \<lparr> played = map fst (take (Suc j) (buffered_writes chunks [])),
          unconsumed = snd (buffered_writes chunks [] ! j),
          reads_used = 2 * Suc j, interrupted = True \<rparr>) \<and>
   (interruptible \<and> aec_enabled dm \<and> has_audio_stream dm \<and>
    (\<forall>i<length (buffered_writes chunks []).
       \<not> barge_in_vote v (sampled_frames v reads (2 * i))) \<longrightarrow>
      snd (speak dm v reads interruptible chunks) =
        \<lparr> played = map fst (buffered_writes chunks []) @
                    (if leftover chunks [] \<noteq> [] then [leftover chunks []] else []),
          unconsumed = [], reads_used = 2 * length (buffered_writes chunks []),
          interrupted = False \<rparr>) \<and>
   (\<not> (interruptible \<and> aec_enabled dm \<and> has_audio_stream dm) \<longrightarrow>
      snd (speak dm v reads interruptible chunks) =
        \<lparr> played = map fst (buffered_writes chunks []) @
                    (if leftover chunks [] \<noteq> [] then [leftover chunks []] else []),
          unconsumed = [], reads_used = 0, interrupted = False \<rparr>) \<and>
   concat (played (snd (speak dm v reads interruptible chunks))) @
   concat (unconsumed (snd (speak dm v reads interruptible chunks))) = concat chunks \<and>
   \<not> is_speaking (fst (speak dm v reads interruptible chunks)) \<and>
   wait_after_speak (fst (speak dm v reads interruptible chunks)) =
     (if aec_enabled dm then 0 else 0.5)"
proof (intro conjI impI)
  assume "has_audio_stream dm"
  then show "barge_in_check dm v reads k =
        (Inr (barge_in_vote v (sampled_frames v reads k)), k + 2)"
    by (rule barge_in_check_votes)
next
  assume a: "interruptible \<and> aec_enabled dm \<and> has_audio_stream dm \<and>
    j < length (buffered_writes chunks []) \<and>
    barge_in_vote v (sampled_frames v reads (2 * j)) \<and>
    (\<forall>i<j. \<not> barge_in_vote v (sampled_frames v reads (2 * i)))"
  let ?dm = "dm \<lparr> is_speaking := True \<rparr>"
  from a have f: "aec_enabled ?dm" "has_audio_stream ?dm" by simp_all
  from a have g: "j < length (buffered_writes chunks [])"
    "barge_in_vote v (sampled_frames v reads (0 + 2 * j))"
    "\<forall>i<j. \<not> barge_in_vote v (sampled_frames v reads (0 + 2 * i))"
    by simp_all
  from a have i: "interruptible" by blast
  from speak_loop_barge_in[OF f g, of "[]"] i
  show "snd (speak dm v reads interruptible chunks) =
        \<lparr> played = map fst (take (Suc j) (buffered_writes chunks [])),
          unconsumed = snd (buffered_writes chunks [] ! j),
          reads_used = 2 * Suc j, interrupted = True \<rparr>"
    by (simp add: speak_def)
next
  assume a: "interruptible \<and> aec_enabled dm \<and> has_audio_stream dm \<and>
    (\<forall>i<length (buffered_writes chunks []).
       \<not> barge_in_vote v (sampled_frames v reads (2 * i)))"
  let ?dm = "dm \<lparr> is_speaking := True \<rparr>"
  from a have f: "aec_enabled ?dm" "has_audio_stream ?dm" by simp_all
  from a have g: "\<forall>i<length (buffered_writes chunks []).
       \<not> barge_in_vote v (sampled_frames v reads (0 + 2 * i))"
    by simp
  from a have i: "interruptible" by blast
  from speak_loop_quiet[OF f g, of "[]"] i
  show "snd (speak dm v reads interruptible chunks) =
        \<lparr> played = map fst (buffered_writes chunks []) @
                    (if leftover chunks [] \<noteq> [] then [leftover chunks []] else []),
          unconsumed = [], reads_used = 2 * length (buffered_writes chunks []),
          interrupted = False \<rparr>"
    by (simp add: speak_def)
next
  assume a: "\<not> (interruptible \<and> aec_enabled dm \<and> has_audio_stream dm)"
  let ?dm = "dm \<lparr> is_speaking := True \<rparr>"
  from a have "\<not> (interruptible \<and> aec_enabled ?dm \<and> has_audio_stream ?dm)" by simp
  from speak_loop_inactive[OF this, of v reads chunks "[]" 0 "[]"]
  show "snd (speak dm v reads interruptible chunks) =
        \<lparr> played = map fst (buffered_writes chunks []) @
                    (if leftover chunks [] \<noteq> [] then [leftover chunks []] else []),
          unconsumed = [], reads_used = 0, interrupted = False \<rparr>"
    by (simp add: speak_def)
next
  show "concat (played (snd (speak dm v reads interruptible chunks))) @
   concat (unconsumed (snd (speak dm v reads interruptible chunks))) = concat chunks"
    using speak_loop_nothing_lost[of "dm \<lparr> is_speaking := True \<rparr>" v reads interruptible chunks "[]" 0 "[]"]
    by (simp add: speak_def)
next
  show "\<not> is_speaking (fst (speak dm v reads interruptible chunks))"
    by (simp add: speak_def)
next
  show "wait_after_speak (fst (speak dm v reads interruptible chunks)) =
     (if aec_enabled dm then 0 else 0.5)"
    by (simp add: speak_def)
qed

lemma demo_capture_frames:
  "capture_frames demo_vad (Inr (speech_frame @ speech_frame @ speech_frame)) =
     [speech_frame, speech_frame, speech_frame]"
  "capture_frames demo_vad (Inr (silence_frame @ silence_frame)) = [silence_frame, silence_frame]"
  "capture_frames demo_vad (Inr silence_frame) = [silence_frame]"
  by (simp_all add: capture_frames_def chunk_slices_def upt_rec)

lemma demo_samples:
  "sampled_frames demo_vad demo_capture 0 =
     [speech_frame, speech_frame, speech_frame, silence_frame, silence_frame]"
  "sampled_frames demo_vad quiet_then_loud 0 = [silence_frame, silence_frame]"
  "sampled_frames demo_vad quiet_then_loud 2 =
     [speech_frame, speech_frame, speech_frame, silence_frame, silence_frame]"
  "sampled_frames demo_vad quiet_capture k = [silence_frame, silence_frame]"
  by (simp_all add: sampled_frames_def demo_capture_def quiet_then_loud_def quiet_capture_def
        demo_capture_frames)

lemma demo_votes:
  "barge_in_vote demo_vad [speech_frame, speech_frame, speech_frame, silence_frame, silence_frame]"
  "\<not> barge_in_vote demo_vad [silence_frame, silence_frame]"
  by (simp_all add: barge_in_vote_def)

lemma demo_stream_writes:
  "buffered_writes demo_stream [] =
     [(replicate 1600 0 @ replicate 1600 1, [replicate 3200 2, replicate 10 3, replicate 5 4]),
      (replicate 3200 2, [replicate 10 3, replicate 5 4])]"
  "leftover demo_stream [] = replicate 10 3 @ replicate 5 4"
  by (simp_all add: demo_stream_def buffer_threshold_def)

text \<open>
  The theorem on concrete inputs. Three loud frames in the first read and two silent ones
  in the second make 60 percent, and the check answers True; two silent frames make it
  answer False. On the stream of five chunks: when the first check finds silence and the
  second finds 60 percent of speech, the playback stops after the second buffered write,
  four reads were made and the last two chunks are not consumed; when every check finds
  silence, the stream is played to its end, the last fifteen bytes in the final write;
  with the bridge disabled, or for a reply that is not interruptible, no read is made.
\<close>

theorem barge_in_aborts_playback_witness:
  "barge_in_check (demo_dm True) demo_vad demo_capture 0 = (Inr True, 2) \<and>
   barge_in_check (demo_dm True) demo_vad quiet_capture 0 = (Inr False, 2) \<and>
   snd (speak (demo_dm True) demo_vad quiet_then_loud True demo_stream) =
     \<lparr> played = [replicate 1600 0 @ replicate 1600 1, replicate 3200 2],
       unconsumed = [replicate 10 3, replicate 5 4], reads_used = 4, interrupted = True \<rparr> \<and>
   snd (speak (demo_dm True) demo_vad quiet_capture True demo_stream) =
     \<lparr> played = [replicate 1600 0 @ replicate 1600 1, replicate 3200 2,
                  replicate 10 3 @ replicate 5 4],
       unconsumed = [], reads_used = 4, interrupted = False \<rparr> \<and>
   snd (speak (demo_dm False) demo_vad demo_capture True demo_stream) =
     \<lparr> played = [replicate 1600 0 @ replicate 1600 1, replicate 3200 2,
                  replicate 10 3 @ replicate 5 4],
       unconsumed = [], reads_used = 0, interrupted = False \<rparr> \<and>
   snd (speak (demo_dm True) demo_vad demo_capture False demo_stream) =
     \<lparr> played = [replicate 1600 0 @ replicate 1600 1, replicate 3200 2,
                  replicate 10 3 @ replicate 5 4],
       unconsumed = [], reads_used = 0, interrupted = False \<rparr>"
proof -
  have s: "has_audio_stream (demo_dm True)" "aec_enabled (demo_dm True)"
    "\<not> aec_enabled (demo_dm False)"
    by (simp_all add: demo_dm_def)
  note t0 = barge_in_aborts_playback[where dm = "demo_dm True" and v = demo_vad
      and reads = demo_capture and k = 0 and interruptible = False and chunks = demo_stream]
  note t1 = barge_in_aborts_playback[where dm = "demo_dm True" and v = demo_vad
      and reads = quiet_capture and k = 0 and interruptible = True and chunks = demo_stream]
  note t2 = barge_in_aborts_playback[where dm = "demo_dm True" and v = demo_vad
      and reads = quiet_then_loud and interruptible = True and chunks = demo_stream and j = 1]
  note t3 = barge_in_aborts_playback[where dm = "demo_dm False" and v = demo_vad
      and reads = demo_capture and interruptible = True and chunks = demo_stream]
  from t0 s have a: "barge_in_check (demo_dm True) demo_vad demo_capture 0 = (Inr True, 2)"
    by (simp add: demo_samples demo_votes)
  from t1 s have b: "barge_in_check (demo_dm True) demo_vad quiet_capture 0 = (Inr False, 2)"
    by (simp add: demo_samples demo_votes)
  have h2: "True \<and> aec_enabled (demo_dm True) \<and> has_audio_stream (demo_dm True) \<and>
    1 < length (buffered_writes demo_stream []) \<and>
    barge_in_vote demo_vad (sampled_frames demo_vad quiet_then_loud (2 * 1)) \<and>
    (\<forall>i<1. \<not> barge_in_vote demo_vad (sampled_frames demo_vad quiet_then_loud (2 * i)))"
    by (simp add: s demo_stream_writes demo_samples demo_votes)
  from t2 h2 have "snd (speak (demo_dm True) demo_vad quiet_then_loud True demo_stream) =
        \<lparr> played = map fst (take (Suc 1) (buffered_writes demo_stream [])),
          unconsumed = snd (buffered_writes demo_stream [] ! 1),
          reads_used = 2 * Suc 1, interrupted = True \<rparr>"
    by blast
  then have c: "snd (speak (demo_dm True) demo_vad quiet_then_loud True demo_stream) =
     \<lparr> played = [replicate 1600 0 @ replicate 1600 1, replicate 3200 2],
       unconsumed = [replicate 10 3, replicate 5 4], reads_used = 4, interrupted = True \<rparr>"
    by (simp add: demo_stream_writes)
  have h1: "True \<and> aec_enabled (demo_dm True) \<and> has_audio_stream (demo_dm True) \<and>
    (\<forall>i<length (buffered_writes demo_stream []).
       \<not> barge_in_vote demo_vad (sampled_frames demo_vad quiet_capture (2 * i)))"
    by (simp add: s demo_samples demo_votes)
  from t1 h1 have "snd (speak (demo_dm True) demo_vad quiet_capture True demo_stream) =
        \<lparr> played = map fst (buffered_writes demo_stream []) @
                    (if leftover demo_stream [] \<noteq> [] then [leftover demo_stream []] else []),
          unconsumed = [], reads_used = 2 * length (buffered_writes demo_stream []),
          interrupted = False \<rparr>"
    by blast
  then have d: "snd (speak (demo_dm True) demo_vad quiet_capture True demo_stream) =
     \<lparr> played = [replicate 1600 0 @ replicate 1600 1, replicate 3200 2,
                  replicate 10 3 @ replicate 5 4],
       unconsumed = [], reads_used = 4, interrupted = False \<rparr>"
    by (simp add: demo_stream_writes)
  have h3: "\<not> (True \<and> aec_enabled (demo_dm False) \<and> has_audio_stream (demo_dm False))"
    by (simp add: s)
  from t3 h3 have "snd (speak (demo_dm False) demo_vad demo_capture True demo_stream) =
        \<lparr> played = map fst (buffered_writes demo_stream []) @
                    (if leftover demo_stream [] \<noteq> [] then [leftover demo_stream []] else []),
          unconsumed = [], reads_used = 0, interrupted = False \<rparr>"
    by blast
  then have e: "snd (speak (demo_dm False) demo_vad demo_capture True demo_stream) =
     \<lparr> played = [replicate 1600 0 @ replicate 1600 1, replicate 3200 2,
                  replicate 10 3 @ replicate 5 4],
       unconsumed = [], reads_used = 0, interrupted = False \<rparr>"
    by (simp add: demo_stream_writes)
  have h0: "\<not> (False \<and> aec_enabled (demo_dm True) \<and> has_audio_stream (demo_dm True))"
    by simp
  from t0 h0 have "snd (speak (demo_dm True) demo_vad demo_capture False demo_stream) =
        \<lparr> played = map fst (buffered_writes demo_stream []) @
                    (if leftover demo_stream [] \<noteq> [] then [leftover demo_stream []] else []),
          unconsumed = [], reads_used = 0, interrupted = False \<rparr>"
    by blast
  then have f: "snd (speak (demo_dm True) demo_vad demo_capture False demo_stream) =
     \<lparr> played = [replicate 1600 0 @ replicate 1600 1, replicate 3200 2,
                  replicate 10 3 @ replicate 5 4],
       unconsumed = [], reads_used = 0, interrupted = False \<rparr>"
    by (simp add: demo_stream_writes)
  from a b c d e f show ?thesis by blast
qed

section \<open>The frames of the recognizer\<close>

lemma byte_of_nat_neq:
  assumes "k < 256" "j < 256" "k \<noteq> j"
  shows "(of_nat k :: byte) \<noteq> of_nat j"
proof
  assume "(of_nat k :: byte) = of_nat j"
  then have "unat (of_nat k :: byte) = unat (of_nat j :: byte)" by simp
  with assms show False by (simp add: unat_of_nat)
qed

lemma to_bytes_big4_small:
  assumes "n < 2031616"
  shows "\<exists>s0 s1 s2 s3. to_bytes_big4 n = Inr [s0, s1, s2, s3] \<and> s0 \<noteq> 0x1f \<and> s1 \<noteq> 0x1f"
proof -
  from assms have a: "n div 16777216 = 0" by simp
  from assms have b: "n div 65536 < 31" by simp
  have "(of_nat (n div 65536) :: byte) \<noteq> of_nat 31"
    using b by (intro byte_of_nat_neq) simp_all
  then have c: "(of_nat (n div 65536) :: byte) \<noteq> 0x1f" by simp
  from assms have "n < 2 ^ 32" by simp
  with a c show ?thesis by (simp add: to_bytes_big4_def)
qed

lemma magic_prefix:
  assumes "take 3 c = gzip_magic"
  shows "\<exists>c'. c = 0x1f # 0x8b # 0x08 # c'"
proof -
  from assms have "length (take 3 c) = 3" by (simp add: gzip_magic_def)
  then have "3 \<le> length c" by simp
  then obtain a b d c' where "c = a # b # d # c'"
    by (metis Suc_le_length_iff numeral_3_eq_3)
  with assms show ?thesis by (simp add: gzip_magic_def)
qed

lemma find_magic_in_frame:
  assumes "h0 \<noteq> 0x1f" "h1 \<noteq> 0x1f" "h2 \<noteq> 0x1f" "h3 \<noteq> 0x1f" "s0 \<noteq> 0x1f" "s1 \<noteq> 0x1f"
  shows "bytes_find (h0 # h1 # h2 # h3 # s0 # s1 # s2 # s3 # 0x1f # 0x8b # 0x08 # c') gzip_magic =
           Some 8"
  using assms by (simp add: bytes_find_def gzip_magic_def)

lemma parse_full_frame:
  assumes rt: "gzip_decompress lib c = Some pb"
    and mg: "take 3 c = gzip_magic"
    and len: "length c < 2031616"
    and js: "loads_bytes lib pb = Some payload"
    and br: "brace_attempt lib (build_header FULL_CLIENT_REQUEST 0 JSON_SERIALIZATION GZIP_COMPRESSION @
                 projr (to_bytes_big4 (length c)) @ c) = None"
  shows "parse_response lib (build_header FULL_CLIENT_REQUEST 0 JSON_SERIALIZATION GZIP_COMPRESSION @
                 projr (to_bytes_big4 (length c)) @ c) = payload"
proof -
  from to_bytes_big4_small[OF len] obtain s0 s1 s2 s3
    where s: "to_bytes_big4 (length c) = Inr [s0, s1, s2, s3]" "s0 \<noteq> 0x1f" "s1 \<noteq> 0x1f"
    by blast
  from magic_prefix[OF mg] obtain c' where c: "c = 0x1f # 0x8b # 0x08 # c'" by blast
  let ?data = "build_header FULL_CLIENT_REQUEST 0 JSON_SERIALIZATION GZIP_COMPRESSION @
                 projr (to_bytes_big4 (length c)) @ c"
  have d: "?data = 0x11 # 0x10 # 0x11 # 0x00 # s0 # s1 # s2 # s3 # c"
    by (simp add: s build_header_def FULL_CLIENT_REQUEST_def JSON_SERIALIZATION_def
          GZIP_COMPRESSION_def)
  have "bytes_find ?data gzip_magic =
          bytes_find (0x11 # 0x10 # 0x11 # 0x00 # s0 # s1 # s2 # s3 # c) gzip_magic"
    by (simp only: d)
  also have "\<dots> = bytes_find (0x11 # 0x10 # 0x11 # 0x00 # s0 # s1 # s2 # s3 # 0x1f # 0x8b # 0x08 # c')
          gzip_magic"
    by (simp only: c)
  also have "\<dots> = Some 8"
    using s(2,3) by (intro find_magic_in_frame) simp_all
  finally have f: "bytes_find ?data gzip_magic = Some 8" .
  have g: "gzip_attempt lib ?data = Some payload"
    unfolding gzip_attempt_def f using rt js by (simp add: d)
  have l: "\<not> length ?data < 4" by (simp add: d)
  from br g l show ?thesis
    by (simp add: parse_response_def Let_def)
qed

lemma parse_audio_frame_general:
  assumes rt: "gzip_decompress lib c = Some audio"
    and mg: "take 3 c = gzip_magic"
    and len: "length c < 2031616"
    and njs: "loads_bytes lib audio = None"
    and h: "h1 \<noteq> 0x1f" "h2 \<noteq> 0x1f" "drop_bit 4 h1 AND 0x0F = 2"
    and br: "brace_attempt lib (0x11 # h1 # h2 # 0x00 # projr (to_bytes_big4 (length c)) @ c) = None"
  shows "parse_response lib (0x11 # h1 # h2 # 0x00 # projr (to_bytes_big4 (length c)) @ c) =
           PDict [(ascii ''msg_type'', PInt (uint (h1 AND 0x0F))), (ascii ''raw'', PBytes c)]"
proof -
  from to_bytes_big4_small[OF len] obtain s0 s1 s2 s3
    where s: "to_bytes_big4 (length c) = Inr [s0, s1, s2, s3]" "s0 \<noteq> 0x1f" "s1 \<noteq> 0x1f"
    by blast
  from magic_prefix[OF mg] obtain c' where c: "c = 0x1f # 0x8b # 0x08 # c'" by blast
  let ?data = "0x11 # h1 # h2 # 0x00 # projr (to_bytes_big4 (length c)) @ c"
  have d: "?data = 0x11 # h1 # h2 # 0x00 # s0 # s1 # s2 # s3 # c"
    by (simp add: s)
  have "bytes_find ?data gzip_magic =
          bytes_find (0x11 # h1 # h2 # 0x00 # s0 # s1 # s2 # s3 # c) gzip_magic"
    by (simp only: d)
  also have "\<dots> = bytes_find (0x11 # h1 # h2 # 0x00 # s0 # s1 # s2 # s3 # 0x1f # 0x8b # 0x08 # c')
          gzip_magic"
    by (simp only: c)
  also have "\<dots> = Some 8"
    using s(2,3) h(1,2) by (intro find_magic_in_frame) simp_all
  finally have f: "bytes_find ?data gzip_magic = Some 8" .
  have raw: "drop 8 ?data = c" by (simp add: d)
  have "gzip_attempt lib ?data =
          (case gzip_decompress lib (drop 8 ?data) of
             None \<Rightarrow> None
           | Some decompressed \<Rightarrow> loads_bytes lib decompressed)"
    unfolding gzip_attempt_def f by (simp only: option.case)
  then have g: "gzip_attempt lib ?data = None"
    by (simp only: raw rt njs option.case)
  have hs: "header_size_of ?data = 8"
    using h(3) by (simp add: header_size_of_def)
  have ld: "length ?data = 8 + length c" by (simp add: d)
  have st: "standard_attempt lib ?data = None"
  proof (cases c')
    case Nil
    with c have "length c = 3" by simp
    with ld have "length ?data = 11" by simp
    then show ?thesis by (simp add: standard_attempt_def hs)
  next
    case (Cons x c'')
    with c have c4: "c = 0x1f # 0x8b # 0x08 # x # c''" by simp
    have "py_slice ?data 8 12 = py_slice (0x11 # h1 # h2 # 0x00 # s0 # s1 # s2 # s3 # c) 8 12"
      by (simp only: d)
    also have "\<dots> = take 4 c" by (simp add: py_slice_def)
    also have "\<dots> = [0x1f, 0x8b, 0x08, x]" by (simp add: c4)
    finally have "from_bytes_big (py_slice ?data 8 12) = 529205248 + unat x"
      by (simp add: from_bytes_big_def)
    moreover have "length ?data < 529205248" using len ld by simp
    ultimately show ?thesis by (simp add: standard_attempt_def hs Let_def)
  qed
  have l: "\<not> length ?data < 4" using ld by simp
  have mt: "?data ! 1 = h1" by simp
  show ?thesis
    unfolding parse_response_def Let_def br g st hs mt raw using l by simp
qed

text \<open>
  Claim C3 (as amended). Take a gzip stream of the payload that decompresses to the
  payload, starts with the gzip magic bytes and is shorter than \<open>0x1F0000\<close> bytes, and a
  frame on which the brace scan of \<^verbatim>\<open>_parse_response\<close> finds no JSON text.
  \<^item> Re-parsing the frame of \<^verbatim>\<open>_build_full_request\<close> gives the configuration, when
    the JSON text of the configuration parses back to it.
  \<^item> Re-parsing the frame of \<^verbatim>\<open>_build_audio_request\<close>, for audio that is not itself JSON
    text, does not give the audio: it gives the fallback dictionary with the entries
    \<^verbatim>\<open>msg_type\<close> and \<^verbatim>\<open>raw\<close>, where \<^verbatim>\<open>raw\<close> is a tail of the frame that ends with the
    audio still compressed.
\<close>

theorem parse_of_built_frames:
  "(gzip_decompress lib (gzip_compress lib pb) = Some pb \<and>
    take 3 (gzip_compress lib pb) = gzip_magic \<and>
    length (gzip_compress lib pb) < 2031616 \<and>
    pb = utf8_encode lib (json_dumps lib (full_request_payload lib self request_id ews)) \<and>
    loads_bytes lib pb = Some (full_request_payload lib self request_id ews) \<and>
    (\<forall>frame. build_full_request lib self request_id ews = Inr frame \<longrightarrow>
       brace_attempt lib frame = None) \<longrightarrow>
      (\<exists>frame. build_full_request lib self request_id ews = Inr frame \<and>
         parse_response lib frame = full_request_payload lib self request_id ews)) \<and>
   (gzip_decompress lib (gzip_compress lib audio) = Some audio \<and>
    take 3 (gzip_compress lib audio) = gzip_magic \<and>
    length (gzip_compress lib audio) < 2031616 \<and>
    loads_bytes lib audio = None \<and>
    (\<forall>frame. build_audio_request lib audio is_last = Inr frame \<longrightarrow>
       brace_attempt lib frame = None) \<longrightarrow>
      (\<exists>frame msg_type head.
         build_audio_request lib audio is_last = Inr frame \<and>
         parse_response lib frame =
           PDict [(ascii ''msg_type'', PInt msg_type),
                  (ascii ''raw'', PBytes (head @ gzip_compress lib audio))] \<and>
         (\<exists>n. head @ gzip_compress lib audio = drop n frame) \<and>
         parse_response lib frame \<noteq> PBytes audio))"
proof (intro conjI impI)
  let ?c = "gzip_compress lib pb"
  let ?frame = "build_header FULL_CLIENT_REQUEST 0 JSON_SERIALIZATION GZIP_COMPRESSION @
                 projr (to_bytes_big4 (length ?c)) @ ?c"
  assume a: "gzip_decompress lib (gzip_compress lib pb) = Some pb \<and>
    take 3 (gzip_compress lib pb) = gzip_magic \<and>
    length (gzip_compress lib pb) < 2031616 \<and>
    pb = utf8_encode lib (json_dumps lib (full_request_payload lib self request_id ews)) \<and>
    loads_bytes lib pb = Some (full_request_payload lib self request_id ews) \<and>
    (\<forall>frame. build_full_request lib self request_id ews = Inr frame \<longrightarrow>
       brace_attempt lib frame = None)"
  note a1 = a[THEN conjunct1]
    and a2 = a[THEN conjunct2, THEN conjunct1]
    and a3 = a[THEN conjunct2, THEN conjunct2, THEN conjunct1]
    and a4 = a[THEN conjunct2, THEN conjunct2, THEN conjunct2, THEN conjunct1]
    and a5 = a[THEN conjunct2, THEN conjunct2, THEN conjunct2, THEN conjunct2, THEN conjunct1]
    and a6 = a[THEN conjunct2, THEN conjunct2, THEN conjunct2, THEN conjunct2, THEN conjunct2]
  from a3 have "length ?c < 2 ^ 32" by simp
  then have sz: "to_bytes_big4 (length ?c) = Inr (projr (to_bytes_big4 (length ?c)))"
    by (simp add: to_bytes_big4_def)
  have b: "build_full_request lib self request_id ews = Inr ?frame"
    unfolding build_full_request_def Let_def a4[symmetric] by (subst sz) simp
  from a6[rule_format, OF b] have br: "brace_attempt lib ?frame = None" .
  have "parse_response lib ?frame = full_request_payload lib self request_id ews"
    by (rule parse_full_frame[OF a1 a2 a3 a5 br])
  with b show "\<exists>frame. build_full_request lib self request_id ews = Inr frame \<and>
         parse_response lib frame = full_request_payload lib self request_id ews"
    by blast
next
  let ?c = "gzip_compress lib audio"
  assume a: "gzip_decompress lib (gzip_compress lib audio) = Some audio \<and>
    take 3 (gzip_compress lib audio) = gzip_magic \<and>
    length (gzip_compress lib audio) < 2031616 \<and>
    loads_bytes lib audio = None \<and>
    (\<forall>frame. build_audio_request lib audio is_last = Inr frame \<longrightarrow>
       brace_attempt lib frame = None)"
  note a1 = a[THEN conjunct1]
    and a2 = a[THEN conjunct2, THEN conjunct1]
    and a3 = a[THEN conjunct2, THEN conjunct2, THEN conjunct1]
    and a5 = a[THEN conjunct2, THEN conjunct2, THEN conjunct2, THEN conjunct1]
    and a6 = a[THEN conjunct2, THEN conjunct2, THEN conjunct2, THEN conjunct2]
  from a3 have "length ?c < 2 ^ 32" by simp
  then have sz: "to_bytes_big4 (length ?c) = Inr (projr (to_bytes_big4 (length ?c)))"
    by (simp add: to_bytes_big4_def)
  from to_bytes_big4_small[OF a3] have l4: "length (projr (to_bytes_big4 (length ?c))) = 4"
    by auto
  let ?h1 = "if is_last then 0x22 else 0x20 :: byte"
  let ?frame = "0x11 # ?h1 # 0x01 # 0x00 # projr (to_bytes_big4 (length ?c)) @ ?c"
  have b: "build_audio_request lib audio is_last = Inr ?frame"
    unfolding build_audio_request_def Let_def
    by (subst sz) (simp add: build_header_def AUDIO_ONLY_REQUEST_def NO_SERIALIZATION_def
          GZIP_COMPRESSION_def)
  from a6[rule_format, OF b] have br: "brace_attempt lib ?frame = None" .
  have h: "?h1 \<noteq> 0x1f" "(0x01 :: byte) \<noteq> 0x1f" "drop_bit 4 ?h1 AND 0x0F = 2"
    by simp_all
  have p: "parse_response lib ?frame =
           PDict [(ascii ''msg_type'', PInt (uint (?h1 AND 0x0F))),
                  (ascii ''raw'', PBytes ([] @ ?c))]"
    using parse_audio_frame_general[OF a1 a2 a3 a5 h br] by simp
  have d: "[] @ ?c = drop 8 ?frame"
    using l4 by simp
  from p have n: "parse_response lib ?frame \<noteq> PBytes audio" by simp
  from b p d n show "\<exists>frame msg_type head.
         build_audio_request lib audio is_last = Inr frame \<and>
         parse_response lib frame =
           PDict [(ascii ''msg_type'', PInt msg_type),
                  (ascii ''raw'', PBytes (head @ gzip_compress lib audio))] \<and>
         (\<exists>n. head @ gzip_compress lib audio = drop n frame) \<and>
         parse_response lib frame \<noteq> PBytes audio"
    by blast
qed

lemma sample_lengths:
  "length sample_context_bytes = 16" "length sample_config_bytes = 315"
  "length sample_config_gz = 207" "length sample_audio_gz = 24"
  "length sample_result_bytes = 26" "length sample_audio = 4"
  by (simp_all add: sample_context_bytes_def sample_config_bytes_def sample_config_gz_def
        sample_audio_gz_def sample_result_bytes_def sample_audio_def)

lemma sample_distinct:
  "sample_config_bytes \<noteq> []" "[] \<noteq> sample_config_bytes"
  "sample_config_gz \<noteq> sample_audio_gz" "sample_audio_gz \<noteq> sample_config_gz"
  "sample_audio_gz \<noteq> []"
  "sample_context_bytes \<noteq> sample_config_bytes" "sample_config_bytes \<noteq> sample_context_bytes"
  "sample_context_bytes \<noteq> []" "[] \<noteq> sample_context_bytes"
  "sample_result_bytes \<noteq> []" "[] \<noteq> sample_result_bytes"
  "sample_result_bytes \<noteq> sample_config_bytes" "sample_config_bytes \<noteq> sample_result_bytes"
  "sample_result_bytes \<noteq> sample_context_bytes" "sample_context_bytes \<noteq> sample_result_bytes"
  "map unat sample_config_bytes \<noteq> [123, 125]" "map unat sample_context_bytes \<noteq> [123, 125]"
  "map unat sample_result_bytes \<noteq> [123, 125]"
  "sample_config_bytes \<noteq> sample_audio" "sample_audio \<noteq> sample_config_bytes"
  "sample_audio_gz \<noteq> sample_audio" "sample_audio \<noteq> sample_audio_gz"
  using sample_lengths by (auto dest: arg_cong[where f = length])

lemma sample_magic:
  "take 3 sample_config_gz = gzip_magic" "take 3 sample_audio_gz = gzip_magic"
  by (simp_all add: sample_config_gz_def sample_audio_gz_def gzip_magic_def)

lemma sample_ascii:
  "list_all (\<lambda>x. x < 0x80) sample_config_bytes" "list_all (\<lambda>x. x < 0x80) sample_context_bytes"
  "\<not> list_all (\<lambda>x. x < 0x80) sample_audio"
  by (simp_all add: sample_config_bytes_def sample_context_bytes_def sample_audio_def)

lemma sample_gzip:
  "gzip_compress sample_lib sample_config_bytes = sample_config_gz"
  "gzip_compress sample_lib sample_audio = sample_audio_gz"
  "gzip_decompress sample_lib sample_config_gz = Some sample_config_bytes"
  "gzip_decompress sample_lib sample_audio_gz = Some sample_audio"
  by (simp_all add: sample_lib_def gzip_samples_def sample_distinct)

lemma sample_payload_built:
  "full_request_payload sample_lib sample_asr (ascii ''u0'') (PInt 500) = sample_payload"
  by (simp add: full_request_payload_def sample_lib_def sample_asr_def json_samples_def
        sample_payload_def)

lemma sample_dumps:
  "utf8_encode sample_lib (json_dumps sample_lib sample_payload) = sample_config_bytes"
proof -
  have "json_dumps sample_lib sample_payload = map unat sample_config_bytes"
    by (simp add: sample_lib_def json_samples_def) (simp add: sample_payload_def)
  moreover have "map of_nat (map unat sample_config_bytes) = sample_config_bytes"
    by (simp add: map_idI)
  ultimately show ?thesis by (simp add: sample_lib_def)
qed

lemma sample_loads:
  "loads_bytes sample_lib sample_config_bytes = Some sample_payload"
  "loads_bytes sample_lib sample_audio = None"
  by (simp_all add: loads_bytes_def sample_lib_def json_samples_def sample_ascii sample_distinct)

lemma sample_full_frame:
  "build_full_request sample_lib sample_asr (ascii ''u0'') (PInt 500) =
     Inr ([0x11, 0x10, 0x11, 0x00, 0, 0, 0, 207] @ sample_config_gz)"
  by (simp add: build_full_request_def Let_def sample_payload_built sample_dumps sample_gzip
        sample_lengths to_bytes_big4_def build_header_def FULL_CLIENT_REQUEST_def
        JSON_SERIALIZATION_def GZIP_COMPRESSION_def)

lemma sample_audio_frame:
  "build_audio_request sample_lib sample_audio is_last =
     Inr ([0x11, if is_last then 0x22 else 0x20, 0x01, 0x00, 0, 0, 0, 24] @ sample_audio_gz)"
  by (simp add: build_audio_request_def Let_def sample_gzip sample_lengths to_bytes_big4_def
        build_header_def AUDIO_ONLY_REQUEST_def NO_SERIALIZATION_def GZIP_COMPRESSION_def)

lemma sample_no_brace:
  "brace_attempt sample_lib (0x11 # 0x10 # 0x11 # 0x00 # 0 # 0 # 0 # 207 # sample_config_gz) = None"
  "h1 \<noteq> 0x7B \<Longrightarrow>
   brace_attempt sample_lib (0x11 # h1 # 0x01 # 0x00 # 0 # 0 # 0 # 24 # sample_audio_gz) = None"
  by (simp_all add: brace_attempt_def bytes_find_def sample_config_gz_def sample_audio_gz_def)

text \<open>
  The theorem on the sample inputs: the frame built for the sample configuration parses
  back to the configuration, and the frame built for the audio chunk, sent as the last
  one, parses to a dictionary whose \<^verbatim>\<open>raw\<close> entry ends with the gzip stream of the chunk.
\<close>

theorem parse_of_built_frames_witness:
  "build_full_request sample_lib sample_asr (ascii ''u0'') (PInt 500) =
     Inr ([0x11, 0x10, 0x11, 0x00, 0, 0, 0, 207] @ sample_config_gz) \<and>
   parse_response sample_lib ([0x11, 0x10, 0x11, 0x00, 0, 0, 0, 207] @ sample_config_gz) =
     sample_payload \<and>
   build_audio_request sample_lib sample_audio True =
     Inr ([0x11, 0x22, 0x01, 0x00, 0, 0, 0, 24] @ sample_audio_gz) \<and>
   (\<exists>msg_type head.
      parse_response sample_lib ([0x11, 0x22, 0x01, 0x00, 0, 0, 0, 24] @ sample_audio_gz) =
        PDict [(ascii ''msg_type'', PInt msg_type),
               (ascii ''raw'', PBytes (head @ sample_audio_gz))]) \<and>
   parse_response sample_lib ([0x11, 0x22, 0x01, 0x00, 0, 0, 0, 24] @ sample_audio_gz) \<noteq>
     PBytes sample_audio"
proof -
  note t = parse_of_built_frames[of sample_lib sample_config_bytes sample_asr "ascii ''u0''"
      "PInt 500" sample_audio True]
  have f: "build_full_request sample_lib sample_asr (ascii ''u0'') (PInt 500) =
     Inr ([0x11, 0x10, 0x11, 0x00, 0, 0, 0, 207] @ sample_config_gz)"
    by (rule sample_full_frame)
  have g: "build_audio_request sample_lib sample_audio True =
     Inr ([0x11, 0x22, 0x01, 0x00, 0, 0, 0, 24] @ sample_audio_gz)"
    using sample_audio_frame[of True] by simp
  have h1: "gzip_decompress sample_lib (gzip_compress sample_lib sample_config_bytes) =
              Some sample_config_bytes \<and>
    take 3 (gzip_compress sample_lib sample_config_bytes) = gzip_magic \<and>
    length (gzip_compress sample_lib sample_config_bytes) < 2031616 \<and>
    sample_config_bytes = utf8_encode sample_lib (json_dumps sample_lib
       (full_request_payload sample_lib sample_asr (ascii ''u0'') (PInt 500))) \<and>
    loads_bytes sample_lib sample_config_bytes =
       Some (full_request_payload sample_lib sample_asr (ascii ''u0'') (PInt 500)) \<and>
    (\<forall>frame. build_full_request sample_lib sample_asr (ascii ''u0'') (PInt 500) = Inr frame \<longrightarrow>
       brace_attempt sample_lib frame = None)"
    by (simp add: sample_gzip sample_magic sample_lengths sample_payload_built sample_dumps
          sample_loads f sample_no_brace)
  have h2: "gzip_decompress sample_lib (gzip_compress sample_lib sample_audio) =
              Some sample_audio \<and>
    take 3 (gzip_compress sample_lib sample_audio) = gzip_magic \<and>
    length (gzip_compress sample_lib sample_audio) < 2031616 \<and>
    loads_bytes sample_lib sample_audio = None \<and>
    (\<forall>frame. build_audio_request sample_lib sample_audio True = Inr frame \<longrightarrow>
       brace_attempt sample_lib frame = None)"
    by (simp add: sample_gzip sample_magic sample_lengths sample_loads g sample_no_brace)
  from t h1 have "\<exists>frame. build_full_request sample_lib sample_asr (ascii ''u0'') (PInt 500) =
        Inr frame \<and>
      parse_response sample_lib frame =
        full_request_payload sample_lib sample_asr (ascii ''u0'') (PInt 500)"
    by blast
  with f have a: "parse_response sample_lib ([0x11, 0x10, 0x11, 0x00, 0, 0, 0, 207] @ sample_config_gz) =
     sample_payload"
    by (auto simp: sample_payload_built)
  from t h2 have "\<exists>frame msg_type head.
      build_audio_request sample_lib sample_audio True = Inr frame \<and>
      parse_response sample_lib frame =
        PDict [(ascii ''msg_type'', PInt msg_type),
               (ascii ''raw'', PBytes (head @ gzip_compress sample_lib sample_audio))] \<and>
      (\<exists>n. head @ gzip_compress sample_lib sample_audio = drop n frame) \<and>
      parse_response sample_lib frame \<noteq> PBytes sample_audio"
    by blast
  with g have b: "(\<exists>msg_type head.
      parse_response sample_lib ([0x11, 0x22, 0x01, 0x00, 0, 0, 0, 24] @ sample_audio_gz) =
        PDict [(ascii ''msg_type'', PInt msg_type),
               (ascii ''raw'', PBytes (head @ sample_audio_gz))]) \<and>
   parse_response sample_lib ([0x11, 0x22, 0x01, 0x00, 0, 0, 0, 24] @ sample_audio_gz) \<noteq>
     PBytes sample_audio"
    by (auto simp: sample_gzip)
  from f a g b show ?thesis by blast
qed

text \<open>
  The claim as first stated fails for the audio frame. The frame built for the audio chunk
  of four bytes parses to a dictionary, not to the chunk; the \<^verbatim>\<open>raw\<close> entry of the
  dictionary holds the gzip stream of twenty-four bytes, and only \<^verbatim>\<open>gzip.decompress\<close> of
  that stream gives the chunk back.
\<close>

theorem parse_audio_frame_counterexample:
  "build_audio_request sample_lib sample_audio False =
     Inr ([0x11, 0x20, 0x01, 0x00, 0, 0, 0, 24] @ sample_audio_gz) \<and>
   parse_response sample_lib ([0x11, 0x20, 0x01, 0x00, 0, 0, 0, 24] @ sample_audio_gz) =
     PDict [(ascii ''msg_type'', PInt 0), (ascii ''raw'', PBytes sample_audio_gz)] \<and>
   parse_response sample_lib ([0x11, 0x20, 0x01, 0x00, 0, 0, 0, 24] @ sample_audio_gz) \<noteq>
     PBytes sample_audio \<and>
   gzip_decompress sample_lib sample_audio_gz = Some sample_audio"
proof -
  have g: "build_audio_request sample_lib sample_audio False =
     Inr ([0x11, 0x20, 0x01, 0x00, 0, 0, 0, 24] @ sample_audio_gz)"
    using sample_audio_frame[of False] by simp
  have sz: "projr (to_bytes_big4 (length sample_audio_gz)) = [0, 0, 0, 24]"
    by (simp add: to_bytes_big4_def sample_lengths)
  have br: "brace_attempt sample_lib
      (0x11 # 0x20 # 0x01 # 0x00 # projr (to_bytes_big4 (length sample_audio_gz)) @ sample_audio_gz) = None"
    unfolding sz using sample_no_brace(2)[of "0x20"] by simp
  have "parse_response sample_lib
      (0x11 # 0x20 # 0x01 # 0x00 # projr (to_bytes_big4 (length sample_audio_gz)) @ sample_audio_gz) =
     PDict [(ascii ''msg_type'', PInt (uint ((0x20 :: byte) AND 0x0F))),
            (ascii ''raw'', PBytes sample_audio_gz)]"
    by (rule parse_audio_frame_general[OF sample_gzip(4) sample_magic(2) _ sample_loads(2) _ _ _ br])
       (simp_all add: sample_lengths)
  then have p: "parse_response sample_lib ([0x11, 0x20, 0x01, 0x00, 0, 0, 0, 24] @ sample_audio_gz) =
     PDict [(ascii ''msg_type'', PInt 0), (ascii ''raw'', PBytes sample_audio_gz)]"
    unfolding sz by simp
  then have n: "parse_response sample_lib ([0x11, 0x20, 0x01, 0x00, 0, 0, 0, 24] @ sample_audio_gz) \<noteq>
     PBytes sample_audio"
    by simp
  from g p n sample_gzip(4) show ?thesis by blast
qed

section \<open>The timeouts of recognize\_realtime\<close>










section \<open>The exit keywords\<close>

lemma find_from_contains: "find_from kw (pre @ kw @ post) i \<noteq> None"
proof (induction pre arbitrary: i)
  case Nil
  have t: "take (length kw) (kw @ post) = kw" by simp
  show ?case
  proof (cases "kw @ post")
    case Nil
    then show ?thesis by simp
  next
    case (Cons x xs)
    with t have "take (length kw) (x # xs) = kw" by simp
    with Cons show ?thesis by simp
  qed
next
  case (Cons a pre)
  then show ?case by simp
qed

lemma exit_requested_contains:
  assumes "kw \<in> set (exit_keywords dm)" "user_text = pre @ kw @ post"
  shows "exit_requested dm user_text"
  using assms find_from_contains[of kw pre post 0]
  by (auto simp: exit_requested_def list_ex_iff)

lemma speak_not_interruptible:
  "snd (speak dm v reads False chunks) =
     \<lparr> played = map fst (buffered_writes chunks []) @
                 (if leftover chunks [] \<noteq> [] then [leftover chunks []] else []),
       unconsumed = [], reads_used = 0, interrupted = False \<rparr>"
  using speak_loop_inactive[of False "dm \<lparr> is_speaking := True \<rparr>" v reads chunks "[]" 0 "[]"]
  by (simp add: speak_def)

lemma speak_fields:
  "running (fst (speak dm v reads i chunks)) = running dm"
  "awaiting_name (fst (speak dm v reads i chunks)) = awaiting_name dm"
  "exit_keywords (fst (speak dm v reads i chunks)) = exit_keywords dm"
  "current_speaker_name (fst (speak dm v reads i chunks)) = current_speaker_name dm"
  by (simp_all add: speak_def)

lemma identify_speaker_keeps:
  assumes "identify_speaker co v reads dm audio_data = (dm_after, acts_before, res)"
  shows "running dm_after = running dm \<and> exit_keywords dm_after = exit_keywords dm \<and>
         filter is_chat acts_before = []"
  using assms
  by (auto simp: identify_speaker_def ask_for_name_def speak_def
           split: if_splits sum.splits option.splits prod.splits)

lemma exit_requested_keywords:
  "exit_keywords dm_after = exit_keywords dm \<Longrightarrow> exit_requested dm_after text = exit_requested dm text"
  by (simp add: exit_requested_def)

lemma main_loop_stopped:
  "\<not> running dm \<Longrightarrow> main_loop n co v script dm acts = Some (dm, acts, script)"
  by (cases n) simp_all

lemma handle_speech_exit:
  assumes "\<not> awaiting_name dm"
    and "identify_speaker co v reads dm audio_data = (dm_after, acts_before, Inr speaker_name)"
    and "\<not> awaiting_name dm_after"
    and "exit_requested dm user_text"
    and "brain_chat co farewell_prompt speaker_name = Inr farewell"
  shows "handle_speech co v reads dm user_text audio_data =
        (fst (speak dm_after v reads False (synthesize_stream co farewell)) \<lparr> running := False \<rparr>,
         acts_before @ [Chat farewell_prompt speaker_name,
                  Speak farewell False
                    (snd (speak dm_after v reads False (synthesize_stream co farewell)))],
         None)"
proof -
  from identify_speaker_keeps[OF assms(2)] assms(4) have "exit_requested dm_after user_text"
    by (simp add: exit_requested_def)
  with assms show ?thesis
    by (simp add: handle_speech_def split: prod.splits)
qed

lemma handle_speech_reply:
  assumes "\<not> awaiting_name dm"
    and "identify_speaker co v reads dm audio_data = (dm_after, acts_before, Inr speaker_name)"
    and "\<not> awaiting_name dm_after"
    and "\<not> exit_requested dm user_text"
    and "brain_chat co user_text speaker_name = Inr reply"
  shows "handle_speech co v reads dm user_text audio_data =
        (fst (speak dm_after v reads True (synthesize_stream co reply)),
         acts_before @ [Chat user_text speaker_name,
                  Speak reply True (snd (speak dm_after v reads True (synthesize_stream co reply)))],
         None)"
proof -
  from identify_speaker_keeps[OF assms(2)] assms(4) have "\<not> exit_requested dm_after user_text"
    by (simp add: exit_requested_def)
  with assms show ?thesis
    by (simp add: handle_speech_def split: prod.splits)
qed

text \<open>
  Claim C4 (as amended). Take an utterance handled while the engine is not waiting for a
  name, for which the identification of the speaker does not raise and does not start
  the question for the name.
  \<^item> When the text contains one of the exit keywords and \<^verbatim>\<open>brain.chat\<close> returns, the
    engine calls \<^verbatim>\<open>brain.chat\<close> once, with the literal farewell word and not with the text
    of the user, speaks the reply with \<^verbatim>\<open>interruptible=False\<close> (the whole stream is played
    and no capture read is made), and clears \<^verbatim>\<open>running\<close>; the main loop is then left at
    its next test and the later rounds of listening are not used.
  \<^item> When the text contains no exit keyword, \<^verbatim>\<open>brain.chat\<close> is called with the text of
    the user, the reply is spoken with \<^verbatim>\<open>interruptible=True\<close> and \<^verbatim>\<open>running\<close> is unchanged.
  While the engine is waiting for a name, the utterance goes to the registration dialog
  whatever it contains; and when the identification of the speaker starts the question
  for the name, the method returns after it: in both cases the exit keywords are not
  looked at, and in the second \<^verbatim>\<open>brain.chat\<close> is not called and \<^verbatim>\<open>running\<close> is unchanged.
\<close>

theorem exit_keyword_ends_dialog:
  "(\<not> awaiting_name dm \<and>
    identify_speaker co v reads dm audio_data = (dm_after, acts_before, Inr speaker_name) \<and>
    \<not> awaiting_name dm_after \<and>
    kw \<in> set (exit_keywords dm) \<and> user_text = pre @ kw @ post \<and>
    brain_chat co farewell_prompt speaker_name = Inr farewell \<longrightarrow>
      handle_speech co v reads dm user_text audio_data =
        (fst (speak dm_after v reads False (synthesize_stream co farewell)) \<lparr> running := False \<rparr>,
         acts_before @ [Chat farewell_prompt speaker_name,
                  Speak farewell False
                    (snd (speak dm_after v reads False (synthesize_stream co farewell)))],
         None) \<and>
      reads_used (snd (speak dm_after v reads False (synthesize_stream co farewell))) = 0 \<and>
      \<not> interrupted (snd (speak dm_after v reads False (synthesize_stream co farewell))) \<and>
      unconsumed (snd (speak dm_after v reads False (synthesize_stream co farewell))) = [] \<and>
      concat (played (snd (speak dm_after v reads False (synthesize_stream co farewell)))) =
        concat (synthesize_stream co farewell) \<and>
      filter is_chat (fst (snd (handle_speech co v reads dm user_text audio_data))) =
        [Chat farewell_prompt speaker_name] \<and>
      \<not> running (fst (handle_speech co v reads dm user_text audio_data)) \<and>
      (running dm \<and> (aec_enabled dm \<or> \<not> is_speaking dm \<and> wait_after_speak dm \<le> 0) \<and>
       user_text \<noteq> [] \<longrightarrow>
         main_loop (Suc n) co v (Recognized (Some user_text) audio_data reads # rest) dm acts =
           Some (fst (handle_speech co v reads dm user_text audio_data),
                 acts @ fst (snd (handle_speech co v reads dm user_text audio_data)), rest))) \<and>
   (\<not> awaiting_name dm \<and>
    identify_speaker co v reads dm audio_data = (dm_after, acts_before, Inr speaker_name) \<and>
    \<not> awaiting_name dm_after \<and> \<not> exit_requested dm user_text \<and>
    brain_chat co user_text speaker_name = Inr reply \<longrightarrow>
      handle_speech co v reads dm user_text audio_data =
        (fst (speak dm_after v reads True (synthesize_stream co reply)),
         acts_before @ [Chat user_text speaker_name,
                  Speak reply True (snd (speak dm_after v reads True (synthesize_stream co reply)))],
         None) \<and>
      running (fst (handle_speech co v reads dm user_text audio_data)) = running dm) \<and>
   (awaiting_name dm \<longrightarrow>
      handle_speech co v reads dm user_text audio_data =
        handle_name_response co dm user_text audio_data) \<and>
   (\<not> awaiting_name dm \<and>
    identify_speaker co v reads dm audio_data = (dm_after, acts_before, Inr speaker_name) \<and>
    awaiting_name dm_after \<longrightarrow>
      handle_speech co v reads dm user_text audio_data = (dm_after, acts_before, None) \<and>
      running dm_after = running dm \<and> filter is_chat acts_before = [])"
proof (intro conjI impI)
  assume a: "\<not> awaiting_name dm \<and>
    identify_speaker co v reads dm audio_data = (dm_after, acts_before, Inr speaker_name) \<and>
    \<not> awaiting_name dm_after \<and>
    kw \<in> set (exit_keywords dm) \<and> user_text = pre @ kw @ post \<and>
    brain_chat co farewell_prompt speaker_name = Inr farewell"
  let ?sp = "speak dm_after v reads False (synthesize_stream co farewell)"
  from a have a1: "\<not> awaiting_name dm"
    and a2: "identify_speaker co v reads dm audio_data = (dm_after, acts_before, Inr speaker_name)"
    and a3: "\<not> awaiting_name dm_after"
    and a4: "kw \<in> set (exit_keywords dm)" and a5: "user_text = pre @ kw @ post"
    and a6: "brain_chat co farewell_prompt speaker_name = Inr farewell"
    by blast+
  from exit_requested_contains[OF a4 a5] have ex: "exit_requested dm user_text" .
  show h: "handle_speech co v reads dm user_text audio_data =
        (fst ?sp \<lparr> running := False \<rparr>,
         acts_before @ [Chat farewell_prompt speaker_name, Speak farewell False (snd ?sp)], None)"
    by (rule handle_speech_exit[OF a1 a2 a3 ex a6])
  note r = speak_not_interruptible[of dm_after v reads "synthesize_stream co farewell"]
  show "reads_used (snd ?sp) = 0" by (simp add: r)
  show "\<not> interrupted (snd ?sp)" by (simp add: r)
  show u: "unconsumed (snd ?sp) = []" by (simp add: r)
  from speak_loop_nothing_lost[of "dm_after \<lparr> is_speaking := True \<rparr>" v reads False
      "synthesize_stream co farewell" "[]" 0 "[]"] u
  show "concat (played (snd ?sp)) = concat (synthesize_stream co farewell)"
    by (simp add: speak_def)
  from identify_speaker_keeps[OF a2] have nc: "filter is_chat acts_before = []" by blast
  show "filter is_chat (fst (snd (handle_speech co v reads dm user_text audio_data))) =
        [Chat farewell_prompt speaker_name]"
    by (simp add: h nc)
  show nr: "\<not> running (fst (handle_speech co v reads dm user_text audio_data))"
    by (simp add: h)
  assume b: "running dm \<and> (aec_enabled dm \<or> \<not> is_speaking dm \<and> wait_after_speak dm \<le> 0) \<and>
       user_text \<noteq> []"
  obtain dm' acts' err where hs: "handle_speech co v reads dm user_text audio_data = (dm', acts', err)"
    by (cases "handle_speech co v reads dm user_text audio_data") blast
  with nr have "\<not> running dm'" by simp
  then have "main_loop n co v rest dm' (acts @ acts') = Some (dm', acts @ acts', rest)"
    by (rule main_loop_stopped)
  with b hs show "main_loop (Suc n) co v (Recognized (Some user_text) audio_data reads # rest) dm acts =
           Some (fst (handle_speech co v reads dm user_text audio_data),
                 acts @ fst (snd (handle_speech co v reads dm user_text audio_data)), rest)"
    by auto
next
  assume a: "\<not> awaiting_name dm \<and>
    identify_speaker co v reads dm audio_data = (dm_after, acts_before, Inr speaker_name) \<and>
    \<not> awaiting_name dm_after \<and> \<not> exit_requested dm user_text \<and>
    brain_chat co user_text speaker_name = Inr reply"
  then have a1: "\<not> awaiting_name dm"
    and a2: "identify_speaker co v reads dm audio_data = (dm_after, acts_before, Inr speaker_name)"
    and a3: "\<not> awaiting_name dm_after"
    and a4: "\<not> exit_requested dm user_text"
    and a5: "brain_chat co user_text speaker_name = Inr reply"
    by blast+
  show h: "handle_speech co v reads dm user_text audio_data =
        (fst (speak dm_after v reads True (synthesize_stream co reply)),
         acts_before @ [Chat user_text speaker_name,
                  Speak reply True (snd (speak dm_after v reads True (synthesize_stream co reply)))],
         None)"
    by (rule handle_speech_reply[OF a1 a2 a3 a4 a5])
  from identify_speaker_keeps[OF a2] have "running dm_after = running dm" by blast
  then show "running (fst (handle_speech co v reads dm user_text audio_data)) = running dm"
    by (simp add: h speak_fields)
next
  assume "awaiting_name dm"
  then show "handle_speech co v reads dm user_text audio_data =
        handle_name_response co dm user_text audio_data"
    by (simp add: handle_speech_def)
next
  assume a: "\<not> awaiting_name dm \<and>
    identify_speaker co v reads dm audio_data = (dm_after, acts_before, Inr speaker_name) \<and>
    awaiting_name dm_after"
  then show "handle_speech co v reads dm user_text audio_data = (dm_after, acts_before, None)"
    by (simp add: handle_speech_def)
  from a identify_speaker_keeps[of co v reads dm audio_data dm_after acts_before "Inr speaker_name"]
  show "running dm_after = running dm" by blast
  from a identify_speaker_keeps[of co v reads dm audio_data dm_after acts_before "Inr speaker_name"]
  show "filter is_chat acts_before = []" by blast
qed

lemma short_playbacks:
  "speak (demo_dm True) demo_vad reads i [[1, 2, 3]] = (demo_dm True, short_playback)"
  "speak ((demo_dm True) \<lparr> awaiting_name := True \<rparr>) demo_vad reads False [[1, 2, 3]] =
     ((demo_dm True) \<lparr> awaiting_name := True \<rparr>, short_playback)"
  by (simp_all add: speak_def demo_dm_def short_playback_def buffer_threshold_def)

lemma plain_identify:
  "identify_speaker plain_co demo_vad reads (demo_dm True) audio_data = (demo_dm True, [], Inr None)"
  by (simp add: identify_speaker_def plain_co_def demo_dm_def)

text \<open>
  The theorem on a concrete turn, with the bridge enabled and no speaker identification.
  The text of seven characters has the keyword of two characters in the middle: the
  engine asks the brain with the farewell word, speaks the answer, clears \<^verbatim>\<open>running\<close>, and
  the main loop is left with the next round of listening unused. A text of two characters
  without a keyword goes to the brain as it is, and the engine keeps running.
\<close>

theorem exit_keyword_ends_dialog_witness:
  "handle_speech plain_co demo_vad quiet_capture (demo_dm True)
      ([0x6211, 0x5148, 0x8D70, 0x4E86] @ [0x518D, 0x89C1] @ [0x5566]) [1, 2] =
     ((demo_dm True) \<lparr> running := False \<rparr>,
      [Chat [0x518D, 0x89C1] None, Speak [98, 121, 101] False short_playback], None) \<and>
   main_loop (Suc 0) plain_co demo_vad
      (Recognized (Some ([0x6211, 0x5148, 0x8D70, 0x4E86] @ [0x518D, 0x89C1] @ [0x5566])) [1, 2]
         quiet_capture # [NoSpeech])
      (demo_dm True) [] =
     Some ((demo_dm True) \<lparr> running := False \<rparr>,
           [Chat [0x518D, 0x89C1] None, Speak [98, 121, 101] False short_playback],
           [NoSpeech]) \<and>
   handle_speech plain_co demo_vad quiet_capture (demo_dm True) [0x4F60, 0x597D] [1, 2] =
     (demo_dm True, [Chat [0x4F60, 0x597D] None, Speak [98, 121, 101] True short_playback],
      None)"
proof -
  let ?text = "[0x6211, 0x5148, 0x8D70, 0x4E86] @ [0x518D, 0x89C1] @ [0x5566] :: str"
  note t = exit_keyword_ends_dialog[where dm = "demo_dm True" and co = plain_co
      and v = demo_vad and reads = quiet_capture and audio_data = "[1, 2]"
      and dm_after = "demo_dm True" and acts_before = "[]" and speaker_name = None
      and kw = "[0x518D, 0x89C1]" and user_text = ?text
      and pre = "[0x6211, 0x5148, 0x8D70, 0x4E86]" and post = "[0x5566]"
      and farewell = "[98, 121, 101]" and n = 0 and rest = "[NoSpeech]" and acts = "[]"]
  have h: "\<not> awaiting_name (demo_dm True) \<and>
    identify_speaker plain_co demo_vad quiet_capture (demo_dm True) [1, 2] =
      (demo_dm True, [], Inr None) \<and>
    \<not> awaiting_name (demo_dm True) \<and>
    [0x518D, 0x89C1] \<in> set (exit_keywords (demo_dm True)) \<and>
    ?text = [0x6211, 0x5148, 0x8D70, 0x4E86] @ [0x518D, 0x89C1] @ [0x5566] \<and>
    brain_chat plain_co farewell_prompt None = Inr [98, 121, 101]"
    by (simp add: plain_identify) (simp add: demo_dm_def exit_keywords_init_def plain_co_def)
  have sy: "synthesize_stream plain_co [98, 121, 101] = [[1, 2, 3]]"
    by (simp add: plain_co_def)
  from t h have a0: "handle_speech plain_co demo_vad quiet_capture (demo_dm True) ?text [1, 2] =
        (fst (speak (demo_dm True) demo_vad quiet_capture False
                (synthesize_stream plain_co [98, 121, 101])) \<lparr> running := False \<rparr>,
         [] @ [Chat farewell_prompt None,
               Speak [98, 121, 101] False
                 (snd (speak (demo_dm True) demo_vad quiet_capture False
                         (synthesize_stream plain_co [98, 121, 101])))],
         None)"
    by blast
  then have a: "handle_speech plain_co demo_vad quiet_capture (demo_dm True) ?text [1, 2] =
     ((demo_dm True) \<lparr> running := False \<rparr>,
      [Chat [0x518D, 0x89C1] None, Speak [98, 121, 101] False short_playback], None)"
    by (simp only: sy short_playbacks fst_conv snd_conv append.simps farewell_prompt_def)
  have g: "running (demo_dm True) \<and>
      (aec_enabled (demo_dm True) \<or>
       \<not> is_speaking (demo_dm True) \<and> wait_after_speak (demo_dm True) \<le> 0) \<and> ?text \<noteq> []"
    by (simp add: demo_dm_def)
  from t h g have "main_loop (Suc 0) plain_co demo_vad
      (Recognized (Some ?text) [1, 2] quiet_capture # [NoSpeech]) (demo_dm True) [] =
     Some (fst (handle_speech plain_co demo_vad quiet_capture (demo_dm True) ?text [1, 2]),
           [] @ fst (snd (handle_speech plain_co demo_vad quiet_capture (demo_dm True) ?text [1, 2])),
           [NoSpeech])"
    by blast
  then have b: "main_loop (Suc 0) plain_co demo_vad
      (Recognized (Some ?text) [1, 2] quiet_capture # [NoSpeech]) (demo_dm True) [] =
     Some ((demo_dm True) \<lparr> running := False \<rparr>,
           [Chat [0x518D, 0x89C1] None, Speak [98, 121, 101] False short_playback],
           [NoSpeech])"
    unfolding a by simp
  note t2 = exit_keyword_ends_dialog[where dm = "demo_dm True" and co = plain_co
      and v = demo_vad and reads = quiet_capture and audio_data = "[1, 2]"
      and dm_after = "demo_dm True" and acts_before = "[]" and speaker_name = None
      and user_text = "[0x4F60, 0x597D]" and reply = "[98, 121, 101]"]
  have h2: "\<not> awaiting_name (demo_dm True) \<and>
    identify_speaker plain_co demo_vad quiet_capture (demo_dm True) [1, 2] =
      (demo_dm True, [], Inr None) \<and>
    \<not> awaiting_name (demo_dm True) \<and> \<not> exit_requested (demo_dm True) [0x4F60, 0x597D] \<and>
    brain_chat plain_co [0x4F60, 0x597D] None = Inr [98, 121, 101]"
    by (simp add: plain_identify)
       (simp add: demo_dm_def exit_keywords_init_def plain_co_def exit_requested_def)
  from t2 h2 have "handle_speech plain_co demo_vad quiet_capture (demo_dm True) [0x4F60, 0x597D] [1, 2] =
        (fst (speak (demo_dm True) demo_vad quiet_capture True
                (synthesize_stream plain_co [98, 121, 101])),
         [] @ [Chat [0x4F60, 0x597D] None,
               Speak [98, 121, 101] True
                 (snd (speak (demo_dm True) demo_vad quiet_capture True
                         (synthesize_stream plain_co [98, 121, 101])))],
         None)"
    by blast
  then have c: "handle_speech plain_co demo_vad quiet_capture (demo_dm True) [0x4F60, 0x597D] [1, 2] =
     (demo_dm True, [Chat [0x4F60, 0x597D] None, Speak [98, 121, 101] True short_playback],
      None)"
    by (simp only: sy short_playbacks fst_conv snd_conv append.simps)
  from a b c show ?thesis by blast
qed

text \<open>
  The claim as first stated fails when the voice is not known to the speaker
  identification. The user says the keyword of two characters that is the second of the
  four literals; the engine records the voice as a pending registration, asks for the
  name and returns: \<^verbatim>\<open>brain.chat\<close> is not called, no farewell is spoken, \<^verbatim>\<open>running\<close> still
  holds, and the main loop goes on to the next round of listening.
\<close>

theorem exit_keyword_unknown_voice_counterexample:
  "[0x518D, 0x89C1] \<in> set (exit_keywords (demo_dm True)) \<and>
   handle_speech stranger_co demo_vad quiet_capture (demo_dm True) [0x518D, 0x89C1] [1, 2] =
     ((demo_dm True) \<lparr> awaiting_name := True \<rparr>,
      [Identify [1, 2], SetPendingRegistration [1, 0], Speak ask_text False short_playback],
      None) \<and>
   running ((demo_dm True) \<lparr> awaiting_name := True \<rparr>) \<and>
   main_loop (Suc (Suc 0)) stranger_co demo_vad
      [Recognized (Some [0x518D, 0x89C1]) [1, 2] quiet_capture, NoSpeech] (demo_dm True) [] =
     None"
proof -
  have k: "[0x518D, 0x89C1] \<in> set (exit_keywords (demo_dm True))"
    by (simp add: demo_dm_def exit_keywords_init_def)
  have na: "\<not> awaiting_name (demo_dm True)" "running (demo_dm True)"
    "aec_enabled (demo_dm True)"
    by (simp_all add: demo_dm_def)
  have sy: "synthesize_stream stranger_co ask_text = [[1, 2, 3]]"
    "has_speaker_id stranger_co" "identify stranger_co [1, 2] = Inr (None, 0, Some [1, 0])"
    by (simp_all add: stranger_co_def plain_co_def)
  have i: "identify_speaker stranger_co demo_vad quiet_capture (demo_dm True) [1, 2] =
      ((demo_dm True) \<lparr> awaiting_name := True \<rparr>,
       [Identify [1, 2], SetPendingRegistration [1, 0], Speak ask_text False short_playback],
       Inr None)"
    by (simp add: identify_speaker_def ask_for_name_def sy short_playbacks)
  have h: "handle_speech stranger_co demo_vad quiet_capture (demo_dm True) [0x518D, 0x89C1] [1, 2] =
     ((demo_dm True) \<lparr> awaiting_name := True \<rparr>,
      [Identify [1, 2], SetPendingRegistration [1, 0], Speak ask_text False short_playback],
      None)"
    by (simp add: handle_speech_def na i)
  have r: "running ((demo_dm True) \<lparr> awaiting_name := True \<rparr>)"
    "aec_enabled ((demo_dm True) \<lparr> awaiting_name := True \<rparr>)"
    by (simp_all add: demo_dm_def)
  have m: "main_loop (Suc (Suc 0)) stranger_co demo_vad
      [Recognized (Some [0x518D, 0x89C1]) [1, 2] quiet_capture, NoSpeech] (demo_dm True) [] =
     None"
    by (simp add: na h r)
  from k h r(1) m show ?thesis by blast
qed

end
